theory Spec2Isabelle
  imports Complex_Main "HOL-Library.Word" "HOL-Library.Signed_Division"
begin

section \<open>The frame-resource ring and its fence\<close>

text \<open>
  \<^verbatim>\<open>const int gNumFrameResources = 3;\<close>
\<close>

definition gNumFrameResources :: int where
  "gNumFrameResources = 3"

text \<open>
  The part of the application state that the ring protocol reads and writes:
  the \<^verbatim>\<open>Fence\<close> field (a \<^verbatim>\<open>UINT64\<close>) of every entry of \<^verbatim>\<open>mFrameResources\<close>,
  the \<^verbatim>\<open>int mCurrFrameResourceIndex\<close>, and the \<^verbatim>\<open>UINT64 mCurrentFence\<close> of the
  application base class.
\<close>

record ring =
  mFrameResources :: "64 word list"
  mCurrFrameResourceIndex :: int
  mCurrentFence :: "64 word"

text \<open>
  The GPU runs beside the control thread. Its side of the fence is a timeline: at
  every tick \<open>u\<close> the call \<^verbatim>\<open>mFence->GetCompletedValue()\<close> would return \<open>gpu u\<close>.
  \<^verbatim>\<open>SetEventOnCompletion(v, e)\<close> followed by \<^verbatim>\<open>WaitForSingleObject(e, INFINITE)\<close>
  suspends the caller until the first tick at which the completed value has reached
  \<open>v\<close>; when that never happens the call never returns, which is the value \<open>None\<close>.
\<close>

partial_function (option) wait_for_fence :: "(nat \<Rightarrow> 64 word) \<Rightarrow> 64 word \<Rightarrow> nat \<Rightarrow> nat option" where
  "wait_for_fence gpu v u = (if v \<le> gpu u then Some u else wait_for_fence gpu v (Suc u))"

datatype 'a outcome = Done 'a | Hang | Fault

text \<open>
  The head of \<^verbatim>\<open>TreeBillboardsApp::Update\<close>: step the index round the ring, pick the
  slot, and wait for the GPU when the slot carries a fence value that is not yet
  completed. \<open>now\<close> is the tick at which the test is made; the result carries the
  tick at which the control thread goes on to write the slot. The C remainder
  \<^verbatim>\<open>%\<close> truncates, which is \<open>smod\<close>; indexing the vector outside its bounds is
  undefined behaviour, the outcome \<open>Fault\<close>.
\<close>

definition Update_sync :: "(nat \<Rightarrow> 64 word) \<Rightarrow> nat \<Rightarrow> ring \<Rightarrow> (nat \<times> ring) outcome" where
  "Update_sync gpu now st =
     (let idx = (mCurrFrameResourceIndex st + 1) smod gNumFrameResources in
      if idx < 0 \<or> int (length (mFrameResources st)) \<le> idx then Fault
      else
        let st' = st\<lparr>mCurrFrameResourceIndex := idx\<rparr>;
            fence = mFrameResources st ! nat idx
        in if fence \<noteq> 0 \<and> gpu now < fence
           then (case wait_for_fence gpu fence now of
                   None \<Rightarrow> Hang
                 | Some u \<Rightarrow> Done (u, st'))
           else Done (now, st'))"

text \<open>
  The tail of \<^verbatim>\<open>TreeBillboardsApp::Draw\<close>:
  \<^verbatim>\<open>mCurrFrameResource->Fence = ++mCurrentFence;\<close> (the increment of a \<^verbatim>\<open>UINT64\<close>
  wraps round).
\<close>

definition Draw_stamp :: "ring \<Rightarrow> ring" where
  "Draw_stamp st =
     (let f = mCurrentFence st + 1
      in st\<lparr>mCurrentFence := f,
             mFrameResources := (mFrameResources st)[nat (mCurrFrameResourceIndex st) := f]\<rparr>)"

text \<open>
  The ring after \<^verbatim>\<open>BuildFrameResources\<close>: \<^verbatim>\<open>gNumFrameResources\<close> slots, every
  \<^verbatim>\<open>Fence\<close> still 0, the index 0. The value \<open>c\<close> of \<^verbatim>\<open>mCurrentFence\<close> after
  initialisation belongs to the base class and is left open.
\<close>

definition startup :: "64 word \<Rightarrow> ring" where
  "startup c = \<lparr>mFrameResources = replicate (nat gNumFrameResources) 0,
                mCurrFrameResourceIndex = 0, mCurrentFence = c\<rparr>"

text \<open>
  A run of frames: frame number \<open>k\<close> begins its \<^verbatim>\<open>Update\<close> at the tick given by the
  \<open>k\<close>-th element of the list, then \<^verbatim>\<open>Draw\<close> stamps the slot. The result lists the
  ticks at which the \<^verbatim>\<open>Update\<close>s went on after the fence test.
\<close>

fun run_frames :: "(nat \<Rightarrow> 64 word) \<Rightarrow> nat list \<Rightarrow> ring \<Rightarrow> (nat list \<times> ring) outcome" where
  "run_frames gpu [] st = Done ([], st)"
| "run_frames gpu (now # rest) st =
     (case Update_sync gpu now st of
        Done (u, st') \<Rightarrow>
          (case run_frames gpu rest (Draw_stamp st') of
             Done (us, st'') \<Rightarrow> Done (u # us, st'')
           | Hang \<Rightarrow> Hang
           | Fault \<Rightarrow> Fault)
      | Hang \<Rightarrow> Hang
      | Fault \<Rightarrow> Fault)"

definition ring_ok :: "ring \<Rightarrow> bool" where
  "ring_ok st \<longleftrightarrow> length (mFrameResources st) = nat gNumFrameResources
                   \<and> 0 \<le> mCurrFrameResourceIndex st
                   \<and> mCurrFrameResourceIndex st < gNumFrameResources"

definition next_index :: "ring \<Rightarrow> int" where
  "next_index st = (mCurrFrameResourceIndex st + 1) mod gNumFrameResources"

section \<open>The wave grid's index buffer\<close>

text \<open>
  The class \<^verbatim>\<open>Waves\<close> is declared in \<^verbatim>\<open>Waves.h\<close>; this file only calls its
  accessors. The record holds what \<^verbatim>\<open>RowCount()\<close>, \<^verbatim>\<open>ColumnCount()\<close>,
  \<^verbatim>\<open>VertexCount()\<close> and \<^verbatim>\<open>TriangleCount()\<close> return (all \<^verbatim>\<open>int\<close>).
\<close>

record Waves_counts =
  RowCount :: int
  ColumnCount :: int
  VertexCount :: int
  TriangleCount :: int

text \<open>
  Modelled from the spec: what the constructor of \<^verbatim>\<open>Waves\<close> (not in this file)
  establishes between the four counts of a grid of \<open>m\<close> rows and \<open>n\<close> columns: one
  vertex per grid sample, and two triangles per grid cell (the index buffer holds three
  indices per triangle).
\<close>

definition Waves_counts_ok :: "Waves_counts \<Rightarrow> bool" where
  "Waves_counts_ok w \<longleftrightarrow>
     VertexCount w = RowCount w * ColumnCount w
     \<and> TriangleCount w = (RowCount w - 1) * (ColumnCount w - 1) * 2"

datatype geo_error = AssertionFailed | IndexOutOfRange

text \<open>
  The inner loop of \<^verbatim>\<open>BuildWavesGeometry\<close>,
  \<^verbatim>\<open>for(int j = 0; j < n - 1; ++j) { indices[k] = i*n + j; ... k += 6; }\<close>.
  An assignment to an element of \<^verbatim>\<open>std::vector<std::uint16_t>\<close> converts the
  \<^verbatim>\<open>int\<close> on the right to 16 bits (\<open>word_of_int\<close> reduces modulo \<open>2 ^ 16\<close>); a
  write outside the vector is undefined behaviour, here \<open>None\<close>.
\<close>

function quad_loop :: "int \<Rightarrow> int \<Rightarrow> int \<Rightarrow> int \<Rightarrow> 16 word list \<Rightarrow> (int \<times> 16 word list) option" where
  "quad_loop n i j k indices =
     (if j < n - 1 then
        (if 0 \<le> k \<and> k + 5 < int (length indices) then
           quad_loop n i (j + 1) (k + 6)
             (indices[nat k := word_of_int (i * n + j),
                      nat (k + 1) := word_of_int (i * n + j + 1),
                      nat (k + 2) := word_of_int ((i + 1) * n + j),
                      nat (k + 3) := word_of_int ((i + 1) * n + j),
                      nat (k + 4) := word_of_int (i * n + j + 1),
                      nat (k + 5) := word_of_int ((i + 1) * n + j + 1)])
         else None)
      else Some (k, indices))"
  by pat_completeness auto
termination
  by (relation "measure (\<lambda>(n, i, j, k, indices). nat (n - 1 - j))") auto

text \<open>The outer loop, \<^verbatim>\<open>for(int i = 0; i < m - 1; ++i)\<close>.\<close>

function row_loop :: "int \<Rightarrow> int \<Rightarrow> int \<Rightarrow> int \<Rightarrow> 16 word list \<Rightarrow> (int \<times> 16 word list) option" where
  "row_loop m n i k indices =
     (if i < m - 1 then
        (case quad_loop n i 0 k indices of
           None \<Rightarrow> None
         | Some (k', indices') \<Rightarrow> row_loop m n (i + 1) k' indices')
      else Some (k, indices))"
  by pat_completeness auto
termination
  by (relation "measure (\<lambda>(m, n, i, k, indices). nat (m - 1 - i))") auto

text \<open>
  \<^verbatim>\<open>BuildWavesGeometry\<close> up to the filled vector: the vector is created with
  \<^verbatim>\<open>3 * TriangleCount()\<close> zeros, the \<^verbatim>\<open>assert\<close> is checked (as in a debug build),
  the loops run from \<^verbatim>\<open>k = 0\<close>. The result is the final value of \<^verbatim>\<open>k\<close> (the number
  of elements assigned) and the vector.
\<close>

definition BuildWavesGeometry :: "Waves_counts \<Rightarrow> geo_error + (int \<times> 16 word list)" where
  "BuildWavesGeometry w =
     (let indices = replicate (nat (3 * TriangleCount w)) (0 :: 16 word) in
      if \<not> VertexCount w < 0x0000ffff then Inl AssertionFailed
      else
        let m = RowCount w; n = ColumnCount w in
        (case row_loop m n 0 0 indices of
           None \<Rightarrow> Inl IndexOutOfRange
         | Some r \<Rightarrow> Inr r))"

text \<open>
  For comparison, the index list that the loops are meant to produce, as unbounded
  integers: the two triangles of the cell at row \<open>i\<close>, column \<open>j\<close>, row by row.
\<close>

definition quad_indices :: "int \<Rightarrow> int \<Rightarrow> int \<Rightarrow> int list" where
  "quad_indices n i j =
     [i * n + j, i * n + j + 1, (i + 1) * n + j,
      (i + 1) * n + j, i * n + j + 1, (i + 1) * n + j + 1]"

definition row_indices :: "int \<Rightarrow> int \<Rightarrow> int \<Rightarrow> int list" where
  "row_indices n i j0 = concat (map (quad_indices n i) [j0..n - 2])"

definition grid_indices :: "int \<Rightarrow> int \<Rightarrow> int \<Rightarrow> int list" where
  "grid_indices m n i0 = concat (map (\<lambda>i. row_indices n i 0) [i0..m - 2])"

section \<open>Render items, their constant buffers, and the draw layers\<close>

text \<open>
  A \<^verbatim>\<open>float\<close> is modelled as a real number, and an \<^verbatim>\<open>XMFLOAT4X4\<close> \<open>M\<close> as the
  function that gives the element \<^verbatim>\<open>M(row, col)\<close>; only rows and columns 0 to 3 are
  ever read. \<^verbatim>\<open>XMMatrixTranspose\<close> swaps rows and columns.
\<close>

type_synonym XMFLOAT4X4 = "nat \<Rightarrow> nat \<Rightarrow> real"

definition XMMatrixTranspose :: "XMFLOAT4X4 \<Rightarrow> XMFLOAT4X4" where
  "XMMatrixTranspose M = (\<lambda>row col. M col row)"

datatype D3D12_PRIMITIVE_TOPOLOGY =
  D3D_PRIMITIVE_TOPOLOGY_TRIANGLELIST | D3D_PRIMITIVE_TOPOLOGY_POINTLIST

text \<open>
  \<^verbatim>\<open>struct RenderItem\<close>. The pointers \<^verbatim>\<open>Mat\<close> and \<^verbatim>\<open>Geo\<close> are the keys of the
  objects they point to in \<^verbatim>\<open>mMaterials\<close> and \<^verbatim>\<open>mGeometries\<close>; the \<^verbatim>\<open>UINT\<close>
  fields are natural numbers (no arithmetic is done on them here).
\<close>

record RenderItem =
  World :: XMFLOAT4X4
  TexTransform :: XMFLOAT4X4
  NumFramesDirty :: int
  ObjCBIndex :: nat
  Mat :: string
  Geo :: string
  PrimitiveType :: D3D12_PRIMITIVE_TOPOLOGY
  IndexCount :: nat
  StartIndexLocation :: nat
  BaseVertexLocation :: int

text \<open>\<^verbatim>\<open>struct ObjectConstants\<close> of \<^verbatim>\<open>FrameResource.h\<close>: the two matrices the loop stores.\<close>

record ObjectConstants =
  cbWorld :: XMFLOAT4X4
  cbTexTransform :: XMFLOAT4X4

text \<open>
  Modelled from the spec: the per-object constant storage of a ring slot (the class
  \<^verbatim>\<open>UploadBuffer\<close> is not in this file), one record per constant-buffer index, written
  with "copy at index" semantics: \<^verbatim>\<open>CopyData(i, c)\<close> puts the record \<open>c\<close> at index \<open>i\<close>.
\<close>

type_synonym 'c UploadBuffer = "nat \<Rightarrow> 'c option"

definition CopyData :: "'c UploadBuffer \<Rightarrow> nat \<Rightarrow> 'c \<Rightarrow> 'c UploadBuffer" where
  "CopyData buf i c = buf(i \<mapsto> c)"

text \<open>
  One call of \<^verbatim>\<open>CopyData\<close> made by \<^verbatim>\<open>UpdateObjectCBs\<close>, as it is observed: the ring
  slot whose buffer is written, the position in \<^verbatim>\<open>mAllRitems\<close> of the item it is made
  for, and the two arguments.
\<close>

datatype copy = Copy (copy_slot: int) (copy_item: nat) (copy_index: nat) (copy_data: ObjectConstants)

text \<open>
  The loop of \<^verbatim>\<open>UpdateObjectCBs\<close> over \<^verbatim>\<open>mAllRitems\<close>, from position \<open>p\<close> on, writing
  the buffer of slot \<open>s\<close>. It returns the buffer, the items and the calls made.
\<close>

fun UpdateObjectCBs_from ::
  "int \<Rightarrow> nat \<Rightarrow> ObjectConstants UploadBuffer \<Rightarrow> RenderItem list
     \<Rightarrow> ObjectConstants UploadBuffer \<times> RenderItem list \<times> copy list" where
  "UpdateObjectCBs_from s p currObjectCB [] = (currObjectCB, [], [])"
| "UpdateObjectCBs_from s p currObjectCB (e # es) =
     (if NumFramesDirty e > 0 then
        (let objConstants = \<lparr>cbWorld = XMMatrixTranspose (World e),
                               cbTexTransform = XMMatrixTranspose (TexTransform e)\<rparr>;
             cb1 = CopyData currObjectCB (ObjCBIndex e) objConstants;
             e1 = e\<lparr>NumFramesDirty := NumFramesDirty e - 1\<rparr>;
             (cb2, es2, calls) = UpdateObjectCBs_from s (Suc p) cb1 es
         in (cb2, e1 # es2, Copy s p (ObjCBIndex e) objConstants # calls))
      else
        (let (cb2, es2, calls) = UpdateObjectCBs_from s (Suc p) currObjectCB es
         in (cb2, e # es2, calls)))"

definition UpdateObjectCBs ::
  "int \<Rightarrow> ObjectConstants UploadBuffer \<Rightarrow> RenderItem list
     \<Rightarrow> ObjectConstants UploadBuffer \<times> RenderItem list \<times> copy list" where
  "UpdateObjectCBs s currObjectCB items = UpdateObjectCBs_from s 0 currObjectCB items"

text \<open>
  The application state that \<^verbatim>\<open>UpdateObjectCBs\<close> works on: the ring state, the owned
  render items, and the \<^verbatim>\<open>ObjectCB\<close> of every ring slot.
\<close>

record app = ring +
  mAllRitems :: "RenderItem list"
  ObjectCB :: "ObjectConstants UploadBuffer list"

text \<open>
  What one \<^verbatim>\<open>Update\<close> does to the render items: the index steps to the next slot and
  \<^verbatim>\<open>UpdateObjectCBs\<close> writes that slot. (The fence wait in between changes no data;
  nothing else in \<^verbatim>\<open>Update\<close> or \<^verbatim>\<open>Draw\<close> assigns \<^verbatim>\<open>NumFramesDirty\<close> of a render
  item or writes an \<^verbatim>\<open>ObjectCB\<close>.)
\<close>

definition Update_objects :: "app \<Rightarrow> (app \<times> copy list) outcome" where
  "Update_objects st =
     (let idx = (mCurrFrameResourceIndex st + 1) smod gNumFrameResources in
      if idx < 0 \<or> int (length (ObjectCB st)) \<le> idx then Fault
      else
        let (cb, items, calls) = UpdateObjectCBs idx (ObjectCB st ! nat idx) (mAllRitems st)
        in Done (st\<lparr>mCurrFrameResourceIndex := idx, mAllRitems := items,
                      ObjectCB := (ObjectCB st)[nat idx := cb]\<rparr>, calls))"

text \<open>\<open>n\<close> frames in a row; the calls of all frames, in order.\<close>

fun run_object_frames :: "nat \<Rightarrow> app \<Rightarrow> (app \<times> copy list) outcome" where
  "run_object_frames 0 st = Done (st, [])"
| "run_object_frames (Suc n) st =
     (case Update_objects st of
        Done (st1, calls1) \<Rightarrow>
          (case run_object_frames n st1 of
             Done (st2, calls2) \<Rightarrow> Done (st2, calls1 @ calls2)
           | Hang \<Rightarrow> Hang
           | Fault \<Rightarrow> Fault)
      | Hang \<Rightarrow> Hang
      | Fault \<Rightarrow> Fault)"

definition app_ok :: "app \<Rightarrow> bool" where
  "app_ok st \<longleftrightarrow> length (ObjectCB st) = nat gNumFrameResources
                  \<and> 0 \<le> mCurrFrameResourceIndex st
                  \<and> mCurrFrameResourceIndex st < gNumFrameResources"

text \<open>The calls made for the item at position \<open>p\<close>.\<close>

definition copies_of :: "nat \<Rightarrow> copy list \<Rightarrow> copy list" where
  "copies_of p calls = filter (\<lambda>c. copy_item c = p) calls"

text \<open>The call that frame number \<open>f\<close> (counted from 1) makes for an item \<open>e\<close> at position \<open>p\<close>,
  when the index was \<open>i\<close> before the first frame.\<close>

definition copy_in_frame :: "int \<Rightarrow> nat \<Rightarrow> RenderItem \<Rightarrow> nat \<Rightarrow> copy" where
  "copy_in_frame i p e f =
     Copy ((i + int f) mod gNumFrameResources) p (ObjCBIndex e)
       \<lparr>cbWorld = XMMatrixTranspose (World e),
        cbTexTransform = XMMatrixTranspose (TexTransform e)\<rparr>"

section \<open>Materials and the draw submission\<close>

text \<open>
  \<^verbatim>\<open>struct Material\<close> of the common utilities, with the fields this file reads and
  writes. Its \<^verbatim>\<open>NumFramesDirty\<close> is named \<open>Material_NumFramesDirty\<close> here, since a
  render item has a field of the same name.
\<close>

record Material =
  MatCBIndex :: nat
  DiffuseSrvHeapIndex :: nat
  Material_NumFramesDirty :: int
  MatTransform :: XMFLOAT4X4

text \<open>\<^verbatim>\<open>enum class RenderLayer\<close>, without the sentinel \<^verbatim>\<open>Count\<close>.\<close>

datatype RenderLayer = Opaque | Transparent | AlphaTested | AlphaTestedTreeSprites

text \<open>
  The calls that \<^verbatim>\<open>Draw\<close> and \<^verbatim>\<open>DrawRenderItems\<close> make on the command list, the queue
  and the swap chain, with the arguments that vary. A pipeline state is named by its key
  in \<^verbatim>\<open>mPSOs\<close>; a constant-buffer address by the buffer and the element index; a vertex
  or index buffer view by the key of the geometry.
\<close>

datatype cbv_address = PassCB_address | ObjectCB_address nat | MaterialCB_address nat

datatype command =
    Reset string
  | RSSetViewports
  | RSSetScissorRects
  | ResourceBarrier_to_render_target
  | ClearRenderTargetView
  | ClearDepthStencilView
  | OMSetRenderTargets
  | SetDescriptorHeaps
  | SetGraphicsRootSignature
  | SetGraphicsRootConstantBufferView nat cbv_address
  | SetPipelineState string
  | IASetVertexBuffers string
  | IASetIndexBuffer string
  | IASetPrimitiveTopology D3D12_PRIMITIVE_TOPOLOGY
  | SetGraphicsRootDescriptorTable nat nat
  | DrawIndexedInstanced nat nat nat int nat
  | ResourceBarrier_to_present
  | Close
  | ExecuteCommandLists
  | Present

text \<open>
  \<^verbatim>\<open>DrawRenderItems\<close>: the loop over the items of one layer. \<open>None\<close> is the
  dereference of a null \<^verbatim>\<open>Mat\<close> pointer (a key with no material).
\<close>

fun DrawRenderItems :: "(string \<rightharpoonup> Material) \<Rightarrow> RenderItem list \<Rightarrow> command list option" where
  "DrawRenderItems mMaterials [] = Some []"
| "DrawRenderItems mMaterials (ri # ritems) =
     (case mMaterials (Mat ri) of
        None \<Rightarrow> None
      | Some mat \<Rightarrow>
          (case DrawRenderItems mMaterials ritems of
             None \<Rightarrow> None
           | Some rest \<Rightarrow>
               Some ([IASetVertexBuffers (Geo ri),
                      IASetIndexBuffer (Geo ri),
                      IASetPrimitiveTopology (PrimitiveType ri),
                      SetGraphicsRootDescriptorTable 0 (DiffuseSrvHeapIndex mat),
                      SetGraphicsRootConstantBufferView 1 (ObjectCB_address (ObjCBIndex ri)),
                      SetGraphicsRootConstantBufferView 3 (MaterialCB_address (MatCBIndex mat)),
                      DrawIndexedInstanced (IndexCount ri) 1 (StartIndexLocation ri)
                        (BaseVertexLocation ri) 0] @ rest)))"

text \<open>\<^verbatim>\<open>TreeBillboardsApp::Draw\<close>, up to \<^verbatim>\<open>Present\<close>.\<close>

definition Draw :: "(string \<rightharpoonup> Material) \<Rightarrow> (RenderLayer \<Rightarrow> RenderItem list) \<Rightarrow> command list option" where
  "Draw mMaterials mRitemLayer =
     (case DrawRenderItems mMaterials (mRitemLayer Opaque) of
        None \<Rightarrow> None
      | Some c1 \<Rightarrow>
     (case DrawRenderItems mMaterials (mRitemLayer AlphaTested) of
        None \<Rightarrow> None
      | Some c2 \<Rightarrow>
     (case DrawRenderItems mMaterials (mRitemLayer AlphaTestedTreeSprites) of
        None \<Rightarrow> None
      | Some c3 \<Rightarrow>
     (case DrawRenderItems mMaterials (mRitemLayer Transparent) of
        None \<Rightarrow> None
      | Some c4 \<Rightarrow>
          Some ([Reset ''opaque'', RSSetViewports, RSSetScissorRects,
                 ResourceBarrier_to_render_target, ClearRenderTargetView, ClearDepthStencilView,
                 OMSetRenderTargets, SetDescriptorHeaps, SetGraphicsRootSignature,
                 SetGraphicsRootConstantBufferView 2 PassCB_address]
                @ c1
                @ [SetPipelineState ''alphaTested''] @ c2
                @ [SetPipelineState ''treeSprites''] @ c3
                @ [SetPipelineState ''transparent''] @ c4
                @ [ResourceBarrier_to_present, Close, ExecuteCommandLists, Present])))))"

text \<open>
  What the GPU is asked to draw: every \<^verbatim>\<open>DrawIndexedInstanced\<close> of a command stream, in
  order, each with the pipeline state that is bound when it is reached (\<open>pso\<close> is the
  one bound before the stream).
\<close>

fun submitted :: "string \<Rightarrow> command list \<Rightarrow> (string \<times> command) list" where
  "submitted pso [] = []"
| "submitted pso (Reset p # cs) = submitted p cs"
| "submitted pso (SetPipelineState p # cs) = submitted p cs"
| "submitted pso (DrawIndexedInstanced a b c d e # cs) =
     (pso, DrawIndexedInstanced a b c d e) # submitted pso cs"
| "submitted pso (other # cs) = submitted pso cs"

text \<open>The draw call of a render item.\<close>

definition draw_call :: "RenderItem \<Rightarrow> command" where
  "draw_call ri =
     DrawIndexedInstanced (IndexCount ri) 1 (StartIndexLocation ri) (BaseVertexLocation ri) 0"

section \<open>Single-precision arithmetic\<close>

text \<open>
  The camera angles, the camera radius and the texture offsets of the water are
  \<^verbatim>\<open>float\<close>s, and the bounds they are compared with are \<^verbatim>\<open>float\<close> constants, which
  differ from the decimal numbers written in the source. A single-precision number is
  modelled by the real number it denotes.

  \<open>round_to ulp x\<close> is the multiple of \<open>ulp\<close> nearest to \<open>x\<close>, the even multiple on a tie:
  the single-precision value of \<open>x\<close> when \<open>ulp\<close> is the distance of neighbouring floats
  around \<open>x\<close>, which is \<open>2 ^ (e - 23)\<close> for \<open>x\<close> between \<open>2 ^ e\<close> and \<open>2 ^ (e + 1)\<close>.
\<close>

definition nearest_even :: "real \<Rightarrow> int" where
  "nearest_even y =
     (let f = \<lfloor>y\<rfloor>; r = y - real_of_int f
      in if r < 1 / 2 then f else if 1 / 2 < r then f + 1 else if even f then f else f + 1)"

definition round_to :: "real \<Rightarrow> real \<Rightarrow> real" where
  "round_to ulp x = ulp * real_of_int (nearest_even (x / ulp))"

text \<open>
  The literals \<^verbatim>\<open>0.1f\<close>, \<^verbatim>\<open>0.2f\<close> and \<^verbatim>\<open>0.02f\<close>, which lie between \<open>2 ^ - 4\<close> and
  \<open>2 ^ - 3\<close>, between \<open>2 ^ - 3\<close> and \<open>2 ^ - 2\<close>, and between \<open>2 ^ - 6\<close> and \<open>2 ^ - 5\<close>.
\<close>

definition float_0_1 :: real where
  "float_0_1 = round_to (1 / 2 ^ 27) (1 / 10)"

definition float_0_2 :: real where
  "float_0_2 = round_to (1 / 2 ^ 26) (2 / 10)"

definition float_0_02 :: real where
  "float_0_02 = round_to (1 / 2 ^ 29) (2 / 100)"

text \<open>
  Modelled from the spec: \<^verbatim>\<open>MathHelper::Pi\<close> belongs to the common helpers, which are
  not in this file; it is used as a \<^verbatim>\<open>float\<close>, and the spec has it as \<open>\<pi>\<close>. It is the
  single-precision number nearest to \<open>\<pi>\<close>, as are \<^verbatim>\<open>XM_PI\<close> of DirectXMath and, halved,
  \<^verbatim>\<open>XM_PIDIV2\<close>.
\<close>

definition MathHelper_Pi :: real where
  "MathHelper_Pi = 13176795 / 4194304"




text \<open>
  Elsewhere the exact result of a rounding is not needed, and the rounding is left open
  up to its size: the result of a single-precision operation is its exact result \<open>x\<close>
  times \<open>1 + d\<close> with a relative error \<open>d\<close> of at most \<open>2 ^ - 24\<close> in absolute value, as
  holds for rounding to nearest in the normal range. The error is taken from the
  parameter \<open>\<delta>\<close>, cut to that range, so that every choice of \<open>\<delta>\<close> is a rounding.
\<close>

definition float_eps :: real where
  "float_eps = 1 / 2 ^ 24"

definition fl :: "(real \<Rightarrow> real) \<Rightarrow> real \<Rightarrow> real" where
  "fl \<delta> x = x * (1 + max (- float_eps) (min float_eps (\<delta> x)))"

section \<open>The orbit camera and the scrolling water material\<close>









text \<open>
  \<^verbatim>\<open>TreeBillboardsApp::AnimateMaterials\<close>, with \<open>dt\<close> the value of \<^verbatim>\<open>gt.DeltaTime()\<close>.
  \<^verbatim>\<open>mMaterials["water"]\<close> of a map without that key yields a null pointer, whose
  dereference is the result \<open>None\<close>.
\<close>

definition AnimateMaterials ::
  "(real \<Rightarrow> real) \<Rightarrow> real \<Rightarrow> (string \<rightharpoonup> Material) \<Rightarrow> (string \<rightharpoonup> Material) option" where
  "AnimateMaterials \<delta> dt mMaterials =
     (case mMaterials ''water'' of
        None \<Rightarrow> None
      | Some waterMat \<Rightarrow>
          (let tu0 = MatTransform waterMat 3 0;
               tv0 = MatTransform waterMat 3 1;
               tu1 = fl \<delta> (tu0 + fl \<delta> (float_0_1 * dt));
               tv1 = fl \<delta> (tv0 + fl \<delta> (float_0_02 * dt));
               tu = (if tu1 \<ge> 1 then fl \<delta> (tu1 - 1) else tu1);
               tv = (if tv1 \<ge> 1 then fl \<delta> (tv1 - 1) else tv1);
               row3 = (MatTransform waterMat 3)(0 := tu, 1 := tv)
           in Some (mMaterials(''water'' \<mapsto>
                      waterMat\<lparr>MatTransform := (MatTransform waterMat)(3 := row3),
                               Material_NumFramesDirty := gNumFrameResources\<rparr>))))"

section \<open>The periodic disturbance of the waves\<close>

text \<open>
  Modelled from the spec: \<^verbatim>\<open>MathHelper::Rand\<close> and \<^verbatim>\<open>MathHelper::RandF\<close> belong to the
  common helpers, which are not in this file. The spec has a pseudo-random cell and a
  pseudo-random magnitude picked inside given bounds: \<open>Rand a b\<close> turns the raw draw
  \<open>raw\<close> of the generator into an integer of the closed range from \<open>a\<close> to \<open>b\<close>, and
  \<open>RandF a b\<close> maps a draw \<open>u\<close> of the unit interval linearly onto the interval from \<open>a\<close>
  to \<open>b\<close>.
\<close>

definition Rand :: "int \<Rightarrow> int \<Rightarrow> nat \<Rightarrow> int" where
  "Rand a b raw = a + int raw mod ((b - a) + 1)"

definition RandF :: "real \<Rightarrow> real \<Rightarrow> real \<Rightarrow> real" where
  "RandF a b u = a + u * (b - a)"

text \<open>
  The head of \<^verbatim>\<open>TreeBillboardsApp::UpdateWaves\<close>. \<open>TotalTime\<close> is the value of
  \<^verbatim>\<open>mTimer.TotalTime()\<close>, \<open>t_base\<close> the function's static variable, and
  \<open>(raw_i, raw_j, u)\<close> the three draws the generator gives when asked. The result is the
  new \<open>t_base\<close> and the arguments of the call \<^verbatim>\<open>mWaves->Disturb(i, j, r)\<close>, if it is made.
\<close>

definition UpdateWaves_disturb ::
  "Waves_counts \<Rightarrow> real \<Rightarrow> nat \<times> nat \<times> real \<Rightarrow> real \<Rightarrow> real \<times> (int \<times> int \<times> real) option" where
  "UpdateWaves_disturb mWaves TotalTime draws t_base =
     (case draws of (raw_i, raw_j, u) \<Rightarrow>
        if (TotalTime - t_base) \<ge> 0.25 then
          (let t_base' = t_base + 0.25;
               i = Rand 4 (RowCount mWaves - 5) raw_i;
               j = Rand 4 (ColumnCount mWaves - 5) raw_j;
               r = RandF 0.2 0.5 u
           in (t_base', Some (i, j, r)))
        else (t_base, None))"

text \<open>
  A run of frames, each given by its total time and its draws. The result lists the
  disturbances in order, each with the total time of the frame that issued it.
\<close>

fun run_waves ::
  "Waves_counts \<Rightarrow> (real \<times> nat \<times> nat \<times> real) list \<Rightarrow> real \<Rightarrow> (real \<times> int \<times> int \<times> real) list" where
  "run_waves mWaves [] t_base = []"
| "run_waves mWaves ((TotalTime, draws) # frames) t_base =
     (case UpdateWaves_disturb mWaves TotalTime draws t_base of
        (t_base', None) \<Rightarrow> run_waves mWaves frames t_base'
      | (t_base', Some d) \<Rightarrow> (TotalTime, d) # run_waves mWaves frames t_base')"

section \<open>The wave field\<close>

text \<open>
  Modelled from the spec: the class \<^verbatim>\<open>Waves\<close> (the spec's WaveField) is not in this
  file, which only calls \<^verbatim>\<open>Disturb\<close> and \<^verbatim>\<open>Update\<close>. The spec gives it a grid of
  \<open>rows \<times> cols\<close> samples with the current and the previous height of each, and the
  parameters spatial step, time step, accumulated time, damping and wave speed.
\<close>

record HeightGrid =
  rows :: int
  cols :: int
  height :: "int \<Rightarrow> int \<Rightarrow> real"
  previous_height :: "int \<Rightarrow> int \<Rightarrow> real"

record WaveField =
  grid :: HeightGrid
  spatial_step :: real
  time_step :: real
  accumulated :: real
  damping :: real
  wave_speed :: real

datatype wave_error = PreconditionViolation

text \<open>
  Modelled from the spec: \<open>disturb(row, col, magnitude)\<close> "requires row, col at least 2
  cells from every edge; applies a localized height impulse, distributing it among the
  target cell and its four direct neighbors with a smaller fraction; raises a
  precondition violation if the caller violates the margin". The target cell receives
  the magnitude and each direct neighbour the part \<open>fraction\<close> of it; the spec does not
  give the value of the fraction, which is a parameter.
\<close>

definition disturb :: "real \<Rightarrow> int \<Rightarrow> int \<Rightarrow> real \<Rightarrow> WaveField \<Rightarrow> wave_error + WaveField" where
  "disturb fraction row col magnitude fld =
     (let g = grid fld in
      if 2 \<le> row \<and> row \<le> rows g - 3 \<and> 2 \<le> col \<and> col \<le> cols g - 3 then
        Inr (fld\<lparr>grid := g\<lparr>height :=
               (\<lambda>r c. height g r c +
                  (if r = row \<and> c = col then magnitude
                   else if (r = row \<and> (c = col + 1 \<or> c = col - 1))
                         \<or> (c = col \<and> (r = row + 1 \<or> r = row - 1))
                        then fraction * magnitude
                   else 0))\<rparr>\<rparr>)
      else Inl PreconditionViolation)"

text \<open>
  Modelled from the spec: \<open>update(elapsedSeconds)\<close> "accumulates elapsed time; while
  accumulated time exceeds the fixed simulation timestep, performs one discrete update
  step and subtracts the timestep". An accumulated time of exactly one time step counts
  as exceeding it: the spec also requires that an elapsed time of exactly \<open>n\<close> time steps
  gives exactly \<open>n\<close> steps. The discrete step, which the spec describes only in outline,
  is the parameter \<open>step\<close>; the loop counts the steps it performs. A loop that never ends
  has the value \<open>None\<close>.
\<close>

partial_function (option) update_loop ::
  "(HeightGrid \<Rightarrow> HeightGrid) \<Rightarrow> WaveField \<Rightarrow> nat \<Rightarrow> (WaveField \<times> nat) option" where
  "update_loop step fld n =
     (if accumulated fld \<ge> time_step fld
      then update_loop step
             (fld\<lparr>grid := step (grid fld), accumulated := accumulated fld - time_step fld\<rparr>) (Suc n)
      else Some (fld, n))"

definition update :: "(HeightGrid \<Rightarrow> HeightGrid) \<Rightarrow> real \<Rightarrow> WaveField \<Rightarrow> (WaveField \<times> nat) option" where
  "update step elapsedSeconds fld =
     update_loop step (fld\<lparr>accumulated := accumulated fld + elapsedSeconds\<rparr>) 0"

section \<open>Properties of the frame-resource ring\<close>

lemma wait_for_fence_reaches:
  "now \<le> u \<Longrightarrow> v \<le> gpu u \<Longrightarrow> \<exists>t. wait_for_fence gpu v now = Some t \<and> t \<le> u"
proof (induction "u - now" arbitrary: now)
  case 0
  then show ?case by (subst wait_for_fence.simps) simp
next
  case (Suc d)
  show ?case
  proof (cases "v \<le> gpu now")
    case True
    then show ?thesis using Suc.prems by (subst wait_for_fence.simps) simp
  next
    case False
    have "d = u - Suc now" using Suc.hyps by simp
    moreover have "Suc now \<le> u" using Suc.hyps by simp
    ultimately obtain t where "wait_for_fence gpu v (Suc now) = Some t" "t \<le> u"
      using Suc.hyps(1) Suc.prems(2) by blast
    then show ?thesis using False by (subst wait_for_fence.simps) simp
  qed
qed

lemma wait_for_fence_least:
  assumes "wait_for_fence gpu v now = Some t"
  shows "now \<le> t \<and> v \<le> gpu t \<and> (\<forall>u. now \<le> u \<and> u < t \<longrightarrow> gpu u < v)"
proof (rule wait_for_fence.raw_induct
    [where P = "\<lambda>gpu v now t. now \<le> t \<and> v \<le> gpu t \<and> (\<forall>u. now \<le> u \<and> u < t \<longrightarrow> gpu u < v)",
      OF _ assms])
  fix w :: "(nat \<Rightarrow> 64 word) \<Rightarrow> 64 word \<Rightarrow> nat \<Rightarrow> nat option"
  fix gpu :: "nat \<Rightarrow> 64 word" and v :: "64 word" and now t :: nat
  assume ih: "\<And>gpu v now t. w gpu v now = Some t \<Longrightarrow>
                now \<le> t \<and> v \<le> gpu t \<and> (\<forall>u. now \<le> u \<and> u < t \<longrightarrow> gpu u < v)"
    and eq: "(if v \<le> gpu now then Some now else w gpu v (Suc now)) = Some t"
  show "now \<le> t \<and> v \<le> gpu t \<and> (\<forall>u. now \<le> u \<and> u < t \<longrightarrow> gpu u < v)"
  proof (cases "v \<le> gpu now")
    case True
    then show ?thesis using eq by auto
  next
    case False
    then have "w gpu v (Suc now) = Some t" using eq by simp
    then have h: "Suc now \<le> t \<and> v \<le> gpu t \<and> (\<forall>u. Suc now \<le> u \<and> u < t \<longrightarrow> gpu u < v)"
      by (rule ih)
    have "gpu u < v" if "now \<le> u" "u < t" for u
    proof (cases "u = now")
      case True then show ?thesis using False by simp
    next
      case False then show ?thesis using h that by simp
    qed
    then show ?thesis using h by simp
  qed
qed

lemma wait_for_fence_None:
  "wait_for_fence gpu v now = None \<longleftrightarrow> (\<forall>u\<ge>now. gpu u < v)"
  using wait_for_fence_reaches[of now _ v gpu] wait_for_fence_least[of gpu v now]
  by (metis not_le option.exhaust option.distinct(1))


lemma next_index_smod:
  "0 \<le> mCurrFrameResourceIndex st \<Longrightarrow>
     (mCurrFrameResourceIndex st + 1) smod gNumFrameResources = next_index st"
  by (simp add: next_index_def gNumFrameResources_def smod_int_alt_def sgn_if)

lemma next_index_range:
  "0 \<le> next_index st \<and> next_index st < gNumFrameResources"
  by (simp add: next_index_def gNumFrameResources_def)

lemma Update_sync_unfold:
  assumes "ring_ok st"
  shows "Update_sync gpu now st =
     (if mFrameResources st ! nat (next_index st) \<noteq> 0
          \<and> gpu now < mFrameResources st ! nat (next_index st)
      then (case wait_for_fence gpu (mFrameResources st ! nat (next_index st)) now of
              None \<Rightarrow> Hang
            | Some u \<Rightarrow> Done (u, st\<lparr>mCurrFrameResourceIndex := next_index st\<rparr>))
      else Done (now, st\<lparr>mCurrFrameResourceIndex := next_index st\<rparr>))"
proof -
  have a: "(mCurrFrameResourceIndex st + 1) smod gNumFrameResources = next_index st"
    using assms by (simp add: next_index_smod ring_ok_def)
  have b: "\<not> (next_index st < 0 \<or> int (length (mFrameResources st)) \<le> next_index st)"
    using assms next_index_range [of st] by (simp add: ring_ok_def)
  show ?thesis
    unfolding Update_sync_def a Let_def using b by simp
qed

text \<open>
  Claim C1. The ring never reuses a slot whose stamped fence value has not been confirmed
  complete. \<^verbatim>\<open>Update\<close> steps the index to the next slot modulo the ring depth; when
  that slot's stamped fence value is nonzero and the completed counter is below it, the
  control thread goes on exactly at the first tick at which the counter has reached the
  stamped value (strictly later than the test, the counter below the value at every tick
  in between), and never goes on when the counter never reaches it; otherwise it goes on
  at once. Whenever it goes on, the slot is unstamped or its stamp is completed.
\<close>

theorem ring_back_pressure:
  assumes "ring_ok st"
  shows "(Update_sync gpu now st = Done (t, st') \<longleftrightarrow>
            st' = st\<lparr>mCurrFrameResourceIndex := next_index st\<rparr> \<and>
            (if mFrameResources st ! nat (next_index st) \<noteq> 0
                 \<and> gpu now < mFrameResources st ! nat (next_index st)
             then now < t \<and> mFrameResources st ! nat (next_index st) \<le> gpu t
                  \<and> (\<forall>u. now \<le> u \<and> u < t \<longrightarrow> gpu u < mFrameResources st ! nat (next_index st))
             else t = now))
       \<and> (Update_sync gpu now st = Hang \<longleftrightarrow>
            mFrameResources st ! nat (next_index st) \<noteq> 0
            \<and> (\<forall>u\<ge>now. gpu u < mFrameResources st ! nat (next_index st)))
       \<and> Update_sync gpu now st \<noteq> Fault
       \<and> (Update_sync gpu now st = Done (t, st') \<longrightarrow>
            mFrameResources st ! nat (next_index st) = 0
            \<or> mFrameResources st ! nat (next_index st) \<le> gpu t)"
proof -
  define f where "f = mFrameResources st ! nat (next_index st)"
  define s1 where "s1 = st\<lparr>mCurrFrameResourceIndex := next_index st\<rparr>"
  have U: "Update_sync gpu now st =
     (if f \<noteq> 0 \<and> gpu now < f
      then (case wait_for_fence gpu f now of None \<Rightarrow> Hang | Some u \<Rightarrow> Done (u, s1))
      else Done (now, s1))"
    unfolding f_def s1_def by (rule Update_sync_unfold [OF assms])
  have A: "Update_sync gpu now st = Done (t, st') \<longleftrightarrow>
            st' = s1 \<and>
            (if f \<noteq> 0 \<and> gpu now < f
             then now < t \<and> f \<le> gpu t \<and> (\<forall>u. now \<le> u \<and> u < t \<longrightarrow> gpu u < f)
             else t = now)"
  proof (cases "f \<noteq> 0 \<and> gpu now < f")
    case False
    then show ?thesis using U by auto
  next
    case True
    show ?thesis
    proof
      assume "Update_sync gpu now st = Done (t, st')"
      then have w: "wait_for_fence gpu f now = Some t" and s: "st' = s1"
        using U True by (auto split: option.splits)
      have l: "now \<le> t \<and> f \<le> gpu t \<and> (\<forall>u. now \<le> u \<and> u < t \<longrightarrow> gpu u < f)"
        by (rule wait_for_fence_least [OF w])
      have "t \<noteq> now" using l True by auto
      then show "st' = s1 \<and>
            (if f \<noteq> 0 \<and> gpu now < f
             then now < t \<and> f \<le> gpu t \<and> (\<forall>u. now \<le> u \<and> u < t \<longrightarrow> gpu u < f)
             else t = now)"
        using l s True by auto
    next
      assume r: "st' = s1 \<and>
            (if f \<noteq> 0 \<and> gpu now < f
             then now < t \<and> f \<le> gpu t \<and> (\<forall>u. now \<le> u \<and> u < t \<longrightarrow> gpu u < f)
             else t = now)"
      then have t: "now < t" "f \<le> gpu t" "\<forall>u. now \<le> u \<and> u < t \<longrightarrow> gpu u < f"
        using True by auto
      obtain t0 where w: "wait_for_fence gpu f now = Some t0" and le: "t0 \<le> t"
        using wait_for_fence_reaches [of now t f gpu] t by auto
      have "now \<le> t0 \<and> f \<le> gpu t0"
        using wait_for_fence_least [OF w] by simp
      then have "\<not> t0 < t" using t(3) by (auto simp: not_less [symmetric])
      then have "t0 = t" using le by simp
      then show "Update_sync gpu now st = Done (t, st')"
        using U True w r by simp
    qed
  qed
  have B: "Update_sync gpu now st = Hang \<longleftrightarrow> f \<noteq> 0 \<and> (\<forall>u\<ge>now. gpu u < f)"
  proof (cases "f \<noteq> 0 \<and> gpu now < f")
    case False
    then have "\<not> (\<forall>u\<ge>now. gpu u < f) \<or> f = 0" by auto
    then show ?thesis using U False by auto
  next
    case True
    then show ?thesis
      using U wait_for_fence_None [of gpu f now] by (auto split: option.splits)
  qed
  have C: "Update_sync gpu now st \<noteq> Fault"
    using U by (auto split: option.splits)
  have D: "Update_sync gpu now st = Done (t, st') \<longrightarrow> f = 0 \<or> f \<le> gpu t"
    using A by (auto split: if_splits simp: not_less)
  show ?thesis
    using A B C D unfolding f_def s1_def by blast
qed


theorem ring_back_pressure_witness:
  "ring_ok \<lparr>mFrameResources = [0, 5, 0], mCurrFrameResourceIndex = 0, mCurrentFence = 5\<rparr>
   \<and> Update_sync (\<lambda>u. if u < 7 then 3 else 5) 2
        \<lparr>mFrameResources = [0, 5, 0], mCurrFrameResourceIndex = 0, mCurrentFence = 5\<rparr>
      = Done (7, \<lparr>mFrameResources = [0, 5, 0], mCurrFrameResourceIndex = 1, mCurrentFence = 5\<rparr>)"
proof -
  have ok: "ring_ok \<lparr>mFrameResources = [0, 5, 0], mCurrFrameResourceIndex = 0, mCurrentFence = 5\<rparr>"
    by (simp add: ring_ok_def gNumFrameResources_def)
  show ?thesis
    using ok ring_back_pressure [OF ok, of "\<lambda>u. if u < 7 then 3 else 5" 2 7
        "\<lparr>mFrameResources = [0, 5, 0], mCurrFrameResourceIndex = 1, mCurrentFence = 5\<rparr>"]
    by (simp add: next_index_def gNumFrameResources_def)
qed

text \<open>
  Claim C9. A slot whose \<^verbatim>\<open>Fence\<close> is still the initial 0 is entered without waiting,
  whatever the GPU's counter says; hence none of the first \<^verbatim>\<open>gNumFrameResources\<close> frames
  after startup waits (every one goes on at the tick it began), and a frame that waits,
  for a while or for ever, has found a nonzero stamp in its slot.
\<close>

theorem unstamped_slot_never_blocks:
  "(ring_ok st \<and> mFrameResources st ! nat (next_index st) = 0 \<longrightarrow>
      Update_sync gpu now st = Done (now, st\<lparr>mCurrFrameResourceIndex := next_index st\<rparr>))
   \<and> (length starts \<le> nat gNumFrameResources \<longrightarrow>
        (\<exists>st'. run_frames gpu starts (startup c) = Done (starts, st')))
   \<and> (ring_ok st \<and> (Update_sync gpu now st = Hang
                      \<or> (\<exists>t st'. Update_sync gpu now st = Done (t, st') \<and> t \<noteq> now)) \<longrightarrow>
        mFrameResources st ! nat (next_index st) \<noteq> 0)"
proof -
  have A: "Update_sync gpu now st = Done (now, st\<lparr>mCurrFrameResourceIndex := next_index st\<rparr>)"
    if "ring_ok st" "mFrameResources st ! nat (next_index st) = 0"
    using that by (simp add: Update_sync_unfold)
  have B: "\<exists>st'. run_frames gpu starts (startup c) = Done (starts, st')"
    if "length starts \<le> nat gNumFrameResources"
  proof -
    have "length starts \<le> 3"
      using that by (simp add: gNumFrameResources_def)
    then have "length starts = 0 \<or> length starts = 1 \<or> length starts = 2 \<or> length starts = 3"
      by arith
    then consider "starts = []" | a where "starts = [a]" | a b where "starts = [a, b]"
      | a b d where "starts = [a, b, d]"
      by (auto simp: length_Suc_conv numeral_2_eq_2 numeral_3_eq_3)
    then show ?thesis
      by cases (simp_all add: startup_def Update_sync_def Draw_stamp_def gNumFrameResources_def
          Let_def smod_int_alt_def)
  qed
  have C: "mFrameResources st ! nat (next_index st) \<noteq> 0"
    if "ring_ok st" "Update_sync gpu now st = Hang
                      \<or> (\<exists>t st'. Update_sync gpu now st = Done (t, st') \<and> t \<noteq> now)"
    using that A by auto
  show ?thesis using A B C by blast
qed

theorem unstamped_slot_never_blocks_witness:
  "ring_ok (startup 0) \<and> mFrameResources (startup 0) ! nat (next_index (startup 0)) = 0
   \<and> Update_sync (\<lambda>u. 0) 4 (startup 0) = Done (4, (startup 0)\<lparr>mCurrFrameResourceIndex := 1\<rparr>)
   \<and> length [4, 9, 12 :: nat] \<le> nat gNumFrameResources
   \<and> (\<exists>st'. run_frames (\<lambda>u. 0) [4, 9, 12] (startup 0) = Done ([4, 9, 12], st'))"
proof -
  have ok: "ring_ok (startup 0) \<and> mFrameResources (startup 0) ! nat (next_index (startup 0)) = 0"
    by (simp add: ring_ok_def startup_def next_index_def gNumFrameResources_def)
  have len: "length [4, 9, 12 :: nat] \<le> nat gNumFrameResources"
    by (simp add: gNumFrameResources_def)
  show ?thesis
    using ok len unstamped_slot_never_blocks [of "startup 0" "\<lambda>u. 0" 4 "[4, 9, 12]" 0]
    by (simp add: next_index_def startup_def gNumFrameResources_def Update_sync_def
        Draw_stamp_def Let_def smod_int_alt_def)
qed

section \<open>Properties of the wave index buffer\<close>

lemma six_le_length:
  assumes "6 \<le> length suf"
  obtains s0 s1 s2 s3 s4 s5 rest where "suf = s0 # s1 # s2 # s3 # s4 # s5 # rest"
proof -
  have "Suc (Suc (Suc (Suc (Suc (Suc 0))))) \<le> length suf"
    using assms by simp
  then show ?thesis
    using that by (auto simp: Suc_le_length_iff)
qed

lemma six_updates:
  assumes "length pre = k" "6 \<le> length suf"
  shows "(pre @ suf)[k := a, Suc k := b, Suc (Suc k) := c, Suc (Suc (Suc k)) := d,
            Suc (Suc (Suc (Suc k))) := e, Suc (Suc (Suc (Suc (Suc k)))) := f]
         = (pre @ [a, b, c, d, e, f]) @ drop 6 suf"
proof -
  obtain s0 s1 s2 s3 s4 s5 rest where suf: "suf = s0 # s1 # s2 # s3 # s4 # s5 # rest"
    using assms(2) by (rule six_le_length)
  show ?thesis
    using assms(1) by (simp add: suf list_update_append)
qed

lemma row_indices_step:
  "j < n - 1 \<Longrightarrow> row_indices n i j = quad_indices n i j @ row_indices n i (j + 1)"
  by (simp add: row_indices_def upto_rec1)

lemma row_indices_done:
  "\<not> j < n - 1 \<Longrightarrow> row_indices n i j = []"
  by (simp add: row_indices_def)

lemma length_row_indices:
  "length (row_indices n i j) = 6 * nat (n - 1 - j)"
proof (induction "nat (n - 1 - j)" arbitrary: j)
  case 0
  then show ?case by (simp add: row_indices_done)
next
  case (Suc d)
  then have lt: "j < n - 1" by simp
  have "d = nat (n - 1 - (j + 1))" using Suc.hyps(2) by simp
  then have "length (row_indices n i (j + 1)) = 6 * nat (n - 1 - (j + 1))"
    by (rule Suc.hyps(1))
  then show ?case
    using lt Suc.hyps(2) by (simp add: row_indices_step quad_indices_def)
qed

lemma quad_loop_fill:
  assumes "length pre = nat k" "0 \<le> k" "6 * nat (n - 1 - j) \<le> length suf"
  shows "quad_loop n i j k (pre @ suf) =
           Some (k + 6 * int (nat (n - 1 - j)),
                 (pre @ map word_of_int (row_indices n i j)) @ drop (6 * nat (n - 1 - j)) suf)"
  using assms
proof (induction n i j k "pre @ suf" arbitrary: pre suf rule: quad_loop.induct)
  case (1 n i j k)
  show ?case
  proof (cases "j < n - 1")
    case False
    then show ?thesis
      by (subst quad_loop.simps) (simp add: row_indices_done)
  next
    case True
    then have pos: "nat (n - 1 - j) = Suc (nat (n - 1 - (j + 1)))" by simp
    then have six: "6 \<le> length suf" using "1.prems"(3) by simp
    have inr: "0 \<le> k \<and> k + 5 < int (length (pre @ suf))"
      using "1.prems"(1,2) six by simp
    let ?q = "map word_of_int (quad_indices n i j) :: 16 word list"
    have nats: "nat (k + 1) = Suc (nat k)" "nat (k + 2) = Suc (Suc (nat k))"
      "nat (k + 3) = Suc (Suc (Suc (nat k)))" "nat (k + 4) = Suc (Suc (Suc (Suc (nat k))))"
      "nat (k + 5) = Suc (Suc (Suc (Suc (Suc (nat k)))))"
      using "1.prems"(2) by simp_all
    have upd: "(pre @ suf)[nat k := word_of_int (i * n + j),
                      nat (k + 1) := word_of_int (i * n + j + 1),
                      nat (k + 2) := word_of_int ((i + 1) * n + j),
                      nat (k + 3) := word_of_int ((i + 1) * n + j),
                      nat (k + 4) := word_of_int (i * n + j + 1),
                      nat (k + 5) := word_of_int ((i + 1) * n + j + 1)]
               = (pre @ ?q) @ drop 6 suf"
      unfolding nats using six_updates [OF "1.prems"(1) six]
      by (simp add: quad_indices_def)
    have ih: "quad_loop n i (j + 1) (k + 6) ((pre @ ?q) @ drop 6 suf) =
           Some (k + 6 + 6 * int (nat (n - 1 - (j + 1))),
                 ((pre @ ?q) @ map word_of_int (row_indices n i (j + 1)))
                   @ drop (6 * nat (n - 1 - (j + 1))) (drop 6 suf))"
    proof (rule "1.hyps" [OF True inr])
      show "(pre @ suf)[nat k := word_of_int (i * n + j),
                      nat (k + 1) := word_of_int (i * n + j + 1),
                      nat (k + 2) := word_of_int ((i + 1) * n + j),
                      nat (k + 3) := word_of_int ((i + 1) * n + j),
                      nat (k + 4) := word_of_int (i * n + j + 1),
                      nat (k + 5) := word_of_int ((i + 1) * n + j + 1)]
               = (pre @ ?q) @ drop 6 suf" by (rule upd)
      show "length (pre @ ?q) = nat (k + 6)"
        using "1.prems"(1,2) by (simp add: quad_indices_def)
      show "0 \<le> k + 6" using "1.prems"(2) by simp
      show "6 * nat (n - 1 - (j + 1)) \<le> length (drop 6 suf)"
        using "1.prems"(3) pos by simp
    qed
    have "quad_loop n i j k (pre @ suf) = quad_loop n i (j + 1) (k + 6) ((pre @ ?q) @ drop 6 suf)"
      by (subst quad_loop.simps) (simp only: True inr upd if_True simp_thms)
    also note ih
    finally show ?thesis
      using True pos by (simp add: row_indices_step add.commute)
  qed
qed

lemma grid_indices_step:
  "i < m - 1 \<Longrightarrow> grid_indices m n i = row_indices n i 0 @ grid_indices m n (i + 1)"
  by (simp add: grid_indices_def upto_rec1)

lemma grid_indices_done:
  "\<not> i < m - 1 \<Longrightarrow> grid_indices m n i = []"
  by (simp add: grid_indices_def)

lemma length_grid_indices:
  "length (grid_indices m n i) = 6 * nat (n - 1) * nat (m - 1 - i)"
proof (induction "nat (m - 1 - i)" arbitrary: i)
  case 0
  then show ?case by (simp add: grid_indices_done)
next
  case (Suc d)
  then have lt: "i < m - 1" by simp
  have "d = nat (m - 1 - (i + 1))" using Suc.hyps(2) by simp
  then have "length (grid_indices m n (i + 1)) = 6 * nat (n - 1) * nat (m - 1 - (i + 1))"
    by (rule Suc.hyps(1))
  moreover have "nat (m - 1 - i) = Suc (nat (m - 1 - (i + 1)))" using lt by simp
  ultimately show ?case
    using lt by (simp add: grid_indices_step length_row_indices)
qed

lemma nat_add_int: "0 \<le> k \<Longrightarrow> nat (k + int r) = nat k + r"
  by arith

lemma row_loop_fill:
  assumes "length pre = nat k" "0 \<le> k" "6 * nat (n - 1) * nat (m - 1 - i) \<le> length suf"
  shows "row_loop m n i k (pre @ suf) =
           Some (k + int (6 * nat (n - 1) * nat (m - 1 - i)),
                 (pre @ map word_of_int (grid_indices m n i))
                   @ drop (6 * nat (n - 1) * nat (m - 1 - i)) suf)"
  using assms
proof (induction m n i k "pre @ suf" arbitrary: pre suf rule: row_loop.induct)
  case (1 m n i k)
  show ?case
  proof (cases "i < m - 1")
    case False
    then show ?thesis
      by (subst row_loop.simps) (simp add: grid_indices_done)
  next
    case True
    let ?r = "6 * nat (n - 1)"
    let ?row = "map word_of_int (row_indices n i 0) :: 16 word list"
    have pos: "nat (m - 1 - i) = Suc (nat (m - 1 - (i + 1)))" using True by simp
    have room: "?r \<le> length suf" using "1.prems"(3) pos by simp
    have q: "quad_loop n i 0 k (pre @ suf) = Some (k + int ?r, (pre @ ?row) @ drop ?r suf)"
      using quad_loop_fill [OF "1.prems"(1,2), of n 0 suf i] room by simp
    have ih: "row_loop m n (i + 1) (k + int ?r) ((pre @ ?row) @ drop ?r suf) =
           Some (k + int ?r + int (?r * nat (m - 1 - (i + 1))),
                 ((pre @ ?row) @ map word_of_int (grid_indices m n (i + 1)))
                   @ drop (?r * nat (m - 1 - (i + 1))) (drop ?r suf))"
    proof (rule "1.hyps" [OF True q refl])
      show "length (pre @ ?row) = nat (k + int ?r)"
        using "1.prems"(1) by (simp only: nat_add_int [OF "1.prems"(2)] length_append length_map
            length_row_indices diff_zero)
      show "0 \<le> k + int ?r" using "1.prems"(2) by simp
      show "?r * nat (m - 1 - (i + 1)) \<le> length (drop ?r suf)"
        using "1.prems"(3) pos by simp
    qed
    have "row_loop m n i k (pre @ suf) = row_loop m n (i + 1) (k + int ?r) ((pre @ ?row) @ drop ?r suf)"
      by (subst row_loop.simps) (simp only: True q if_True option.case prod.case)
    also note ih
    finally show ?thesis
      using True pos by (simp add: grid_indices_step add.commute algebra_simps)
  qed
qed

lemma quad_indices_bounds:
  assumes "0 \<le> i" "i < m - 1" "0 \<le> j" "j < n - 1" "x \<in> set (quad_indices n i j)"
  shows "0 \<le> x \<and> x < m * n"
proof -
  have n: "0 \<le> n" using assms(3,4) by simp
  have "(i + 1) * n \<le> (m - 1) * n"
    using assms(2) n by (intro mult_right_mono) simp_all
  then have up: "(i + 1) * n + j + 1 < m * n"
    using assms(4) by (simp add: algebra_simps)
  have lo: "0 \<le> i * n" using assms(1) n by simp
  have "i * n + j \<le> x \<and> x \<le> (i + 1) * n + j + 1"
    using assms(5) n by (auto simp: quad_indices_def algebra_simps)
  then show ?thesis using up lo assms(3) by linarith
qed

lemma grid_indices_bounds:
  assumes "x \<in> set (grid_indices m n 0)"
  shows "0 \<le> x \<and> x < m * n"
proof -
  obtain i j where "0 \<le> i" "i \<le> m - 2" "0 \<le> j" "j \<le> n - 2" "x \<in> set (quad_indices n i j)"
    using assms by (auto simp: grid_indices_def row_indices_def)
  then show ?thesis
    using quad_indices_bounds [of i m j n x] by simp
qed

text \<open>
  Claim C10. For a wave grid of \<open>m \<ge> 1\<close> rows and \<open>n \<ge> 1\<close> columns whose vertex count
  passes the assertion \<^verbatim>\<open>VertexCount() < 0x0000ffff\<close>, the loops of
  \<^verbatim>\<open>BuildWavesGeometry\<close> stay inside the vector and assign exactly
  \<open>6 (m - 1) (n - 1) = 3 * TriangleCount\<close> elements, which is the whole vector; every
  stored index is below \<open>m * n\<close>; and reading the stored 16-bit values back gives the
  integers that were computed, so nothing was cut off by the conversion.
\<close>

theorem wave_index_buffer:
  assumes "1 \<le> RowCount w" "1 \<le> ColumnCount w" "Waves_counts_ok w"
    and "VertexCount w < 0x0000ffff"
  shows "\<exists>indices.
           BuildWavesGeometry w = Inr (6 * (RowCount w - 1) * (ColumnCount w - 1), indices)
         \<and> int (length indices) = 6 * (RowCount w - 1) * (ColumnCount w - 1)
         \<and> 6 * (RowCount w - 1) * (ColumnCount w - 1) = 3 * TriangleCount w
         \<and> (\<forall>p < length indices. uint (indices ! p) < RowCount w * ColumnCount w)
         \<and> map uint indices = grid_indices (RowCount w) (ColumnCount w) 0"
proof -
  define m where "m = RowCount w"
  define n where "n = ColumnCount w"
  define L where "L = grid_indices m n 0"
  define total where "total = 6 * nat (n - 1) * nat (m - 1 - 0)"
  have tri: "TriangleCount w = (m - 1) * (n - 1) * 2" and vc: "VertexCount w = m * n"
    using assms(3) by (simp_all add: Waves_counts_ok_def m_def n_def)
  have m1: "1 \<le> m" and n1: "1 \<le> n" using assms(1,2) by (simp_all add: m_def n_def)
  have tot: "int total = 6 * (m - 1) * (n - 1)"
    using m1 n1 by (simp add: total_def algebra_simps)
  have "3 * TriangleCount w = int total"
    using tot tri by (simp add: algebra_simps)
  then have size: "nat (3 * TriangleCount w) = total"
    by simp
  have lenL: "length L = total"
    by (simp add: L_def total_def length_grid_indices)
  have "row_loop m n 0 0 ([] @ replicate total (0 :: 16 word)) =
          Some (0 + int total, ([] @ map word_of_int L) @ drop total (replicate total 0))"
    unfolding total_def L_def by (rule row_loop_fill) simp_all
  then have run: "row_loop m n 0 0 (replicate total (0 :: 16 word)) =
          Some (int total, map word_of_int L)"
    by simp
  have B: "BuildWavesGeometry w = Inr (int total, map word_of_int L)"
    using assms(4) run by (simp add: BuildWavesGeometry_def Let_def size m_def [symmetric] n_def [symmetric])
  have small: "0 \<le> x \<and> x < 2 ^ 16" if "x \<in> set L" for x
  proof -
    have "0 \<le> x \<and> x < m * n" using that grid_indices_bounds unfolding L_def by blast
    then show ?thesis using assms(4) vc by simp
  qed
  have "uint (word_of_int x :: 16 word) = x" if "x \<in> set L" for x
    using small [OF that] by (simp add: uint_word_of_int take_bit_int_eq_self)
  then have U: "map uint (map word_of_int L :: 16 word list) = L"
    by (simp add: map_idI)
  have R: "uint ((map word_of_int L :: 16 word list) ! p) < m * n" if "p < length L" for p
  proof -
    have "uint ((map word_of_int L :: 16 word list) ! p) = L ! p"
      using U that by (metis length_map nth_map)
    moreover have "L ! p \<in> set L" using that by simp
    ultimately show ?thesis using grid_indices_bounds unfolding L_def by metis
  qed
  show ?thesis
    using B tot lenL tri U R
    unfolding m_def [symmetric] n_def [symmetric] L_def [symmetric]
    by (intro exI [of _ "map word_of_int L"]) simp
qed

theorem wave_index_buffer_witness:
  "(1::int) \<le> RowCount \<lparr>RowCount = 3, ColumnCount = 4, VertexCount = 12, TriangleCount = 12\<rparr>
   \<and> Waves_counts_ok \<lparr>RowCount = 3, ColumnCount = 4, VertexCount = 12, TriangleCount = 12\<rparr>
   \<and> BuildWavesGeometry \<lparr>RowCount = 3, ColumnCount = 4, VertexCount = 12, TriangleCount = 12\<rparr>
       = Inr (36, [0, 1, 4, 4, 1, 5, 1, 2, 5, 5, 2, 6, 2, 3, 6, 6, 3, 7,
                   4, 5, 8, 8, 5, 9, 5, 6, 9, 9, 6, 10, 6, 7, 10, 10, 7, 11])"
proof -
  let ?w = "\<lparr>RowCount = 3, ColumnCount = 4, VertexCount = 12, TriangleCount = 12\<rparr>"
  have h: "1 \<le> RowCount ?w" "1 \<le> ColumnCount ?w" "Waves_counts_ok ?w" "VertexCount ?w < 0x0000ffff"
    by (simp_all add: Waves_counts_ok_def)
  have g: "grid_indices 3 4 0 = [0, 1, 4, 4, 1, 5, 1, 2, 5, 5, 2, 6, 2, 3, 6, 6, 3, 7,
                   4, 5, 8, 8, 5, 9, 5, 6, 9, 9, 6, 10, 6, 7, 10, 10, 7, 11]"
    by code_simp
  obtain indices where r: "BuildWavesGeometry ?w = Inr (36, indices)"
      and u: "map uint indices = grid_indices 3 4 0"
    using wave_index_buffer [OF h] by auto
  have "indices = map word_of_int (map uint indices)"
    by (simp add: map_idI)
  then have "indices = [0, 1, 4, 4, 1, 5, 1, 2, 5, 5, 2, 6, 2, 3, 6, 6, 3, 7,
                   4, 5, 8, 8, 5, 9, 5, 6, 9, 9, 6, 10, 6, 7, 10, 10, 7, 11]"
    unfolding u g by simp
  then show ?thesis using h r by simp
qed


section \<open>Properties of the dirty counters\<close>

lemma UpdateObjectCBs_from_items:
  "fst (snd (UpdateObjectCBs_from s p cb es)) =
     map (\<lambda>e. if NumFramesDirty e > 0 then e\<lparr>NumFramesDirty := NumFramesDirty e - 1\<rparr> else e) es"
  by (induction es arbitrary: p cb) (simp_all add: Let_def case_prod_beta)

lemma UpdateObjectCBs_from_lower:
  "c \<in> set (snd (snd (UpdateObjectCBs_from s p cb es))) \<Longrightarrow> p \<le> copy_item c"
proof (induction es arbitrary: p cb)
  case Nil
  then show ?case by simp
next
  case (Cons e es)
  then show ?case
    by (fastforce simp: Let_def case_prod_beta split: if_splits)
qed

lemma UpdateObjectCBs_from_copies:
  "q < length es \<Longrightarrow>
     copies_of (p + q) (snd (snd (UpdateObjectCBs_from s p cb es))) =
       (if NumFramesDirty (es ! q) > 0
        then [Copy s (p + q) (ObjCBIndex (es ! q))
                \<lparr>cbWorld = XMMatrixTranspose (World (es ! q)),
                 cbTexTransform = XMMatrixTranspose (TexTransform (es ! q))\<rparr>]
        else [])"
proof (induction es arbitrary: p q cb)
  case Nil
  then show ?case by simp
next
  case (Cons e es)
  show ?case
  proof (cases q)
    case 0
    have rest: "copies_of p (snd (snd (UpdateObjectCBs_from s (Suc p) cb' es))) = []" for cb'
      unfolding copies_of_def filter_empty_conv
      using UpdateObjectCBs_from_lower [of _ s "Suc p" cb' es] by fastforce
    show ?thesis
      using 0 rest by (simp add: Let_def case_prod_beta) (simp add: copies_of_def)
  next
    case (Suc q')
    then have q': "q' < length es" using Cons.prems by simp
    have ih: "copies_of (Suc p + q') (snd (snd (UpdateObjectCBs_from s (Suc p) cb' es))) =
       (if NumFramesDirty (es ! q') > 0
        then [Copy s (Suc p + q') (ObjCBIndex (es ! q'))
                \<lparr>cbWorld = XMMatrixTranspose (World (es ! q')),
                 cbTexTransform = XMMatrixTranspose (TexTransform (es ! q'))\<rparr>]
        else [])" for cb'
      by (rule Cons.IH [OF q'])
    show ?thesis
      using Suc ih by (simp add: Let_def case_prod_beta) (simp add: copies_of_def)
  qed
qed

lemma Update_objects_item:
  assumes ok: "app_ok st" and p: "p < length (mAllRitems st)"
  shows "\<exists>st1 calls.
           Update_objects st = Done (st1, calls)
         \<and> app_ok st1
         \<and> mCurrFrameResourceIndex st1 = (mCurrFrameResourceIndex st + 1) mod gNumFrameResources
         \<and> length (mAllRitems st1) = length (mAllRitems st)
         \<and> mAllRitems st1 ! p =
             (if NumFramesDirty (mAllRitems st ! p) > 0
              then (mAllRitems st ! p)\<lparr>NumFramesDirty := NumFramesDirty (mAllRitems st ! p) - 1\<rparr>
              else mAllRitems st ! p)
         \<and> copies_of p calls =
             (if NumFramesDirty (mAllRitems st ! p) > 0
              then [copy_in_frame (mCurrFrameResourceIndex st) p (mAllRitems st ! p) 1]
              else [])"
proof -
  define idx where "idx = (mCurrFrameResourceIndex st + 1) mod gNumFrameResources"
  define r where "r = UpdateObjectCBs idx (ObjectCB st ! nat idx) (mAllRitems st)"
  have sm: "(mCurrFrameResourceIndex st + 1) smod gNumFrameResources = idx"
    using ok by (simp add: idx_def app_ok_def gNumFrameResources_def smod_int_alt_def sgn_if)
  have rng: "0 \<le> idx" "idx < gNumFrameResources"
    by (simp_all add: idx_def gNumFrameResources_def)
  then have inr: "\<not> (idx < 0 \<or> int (length (ObjectCB st)) \<le> idx)"
    using ok by (simp add: app_ok_def)
  have U: "Update_objects st =
      Done (st\<lparr>mCurrFrameResourceIndex := idx, mAllRitems := fst (snd r),
                ObjectCB := (ObjectCB st)[nat idx := fst r]\<rparr>, snd (snd r))"
    unfolding Update_objects_def sm Let_def r_def using inr by (simp add: case_prod_beta)
  have items: "fst (snd r) =
     map (\<lambda>e. if NumFramesDirty e > 0 then e\<lparr>NumFramesDirty := NumFramesDirty e - 1\<rparr> else e)
       (mAllRitems st)"
    unfolding r_def UpdateObjectCBs_def by (rule UpdateObjectCBs_from_items)
  have cp: "copies_of p (snd (snd r)) =
       (if NumFramesDirty (mAllRitems st ! p) > 0
        then [Copy idx p (ObjCBIndex (mAllRitems st ! p))
                \<lparr>cbWorld = XMMatrixTranspose (World (mAllRitems st ! p)),
                 cbTexTransform = XMMatrixTranspose (TexTransform (mAllRitems st ! p))\<rparr>]
        else [])"
    unfolding r_def UpdateObjectCBs_def
    using UpdateObjectCBs_from_copies [OF p, of 0 idx] by simp
  show ?thesis
    unfolding U using ok p rng items cp
    by (simp add: app_ok_def copy_in_frame_def idx_def)
qed

lemma copy_in_frame_shift:
  "copy_in_frame ((i + 1) mod gNumFrameResources) p (e\<lparr>NumFramesDirty := d\<rparr>) f
     = copy_in_frame i p e (Suc f)"
  by (simp add: copy_in_frame_def mod_add_left_eq add.assoc)

lemma copy_in_frame_shift':
  "copy_in_frame ((i + 1) mod gNumFrameResources) p e f = copy_in_frame i p e (Suc f)"
  by (simp add: copy_in_frame_def mod_add_left_eq add.assoc)

lemma run_object_frames_item:
  assumes "app_ok st" "p < length (mAllRitems st)" "0 \<le> NumFramesDirty (mAllRitems st ! p)"
  shows "\<exists>st' calls.
           run_object_frames n st = Done (st', calls)
         \<and> app_ok st'
         \<and> length (mAllRitems st') = length (mAllRitems st)
         \<and> mAllRitems st' ! p =
             (mAllRitems st ! p)\<lparr>NumFramesDirty :=
                NumFramesDirty (mAllRitems st ! p) - min (int n) (NumFramesDirty (mAllRitems st ! p))\<rparr>
         \<and> copies_of p calls =
             map (copy_in_frame (mCurrFrameResourceIndex st) p (mAllRitems st ! p))
               [1..<Suc (min n (nat (NumFramesDirty (mAllRitems st ! p))))]"
  using assms
proof (induction n arbitrary: st)
  case 0
  then show ?case by (simp add: copies_of_def)
next
  case (Suc n)
  define e where "e = mAllRitems st ! p"
  define d where "d = NumFramesDirty e"
  define i where "i = mCurrFrameResourceIndex st"
  obtain st1 calls1 where
    U: "Update_objects st = Done (st1, calls1)" and ok1: "app_ok st1"
    and i1: "mCurrFrameResourceIndex st1 = (i + 1) mod gNumFrameResources"
    and l1: "length (mAllRitems st1) = length (mAllRitems st)"
    and e1: "mAllRitems st1 ! p = (if d > 0 then e\<lparr>NumFramesDirty := d - 1\<rparr> else e)"
    and c1: "copies_of p calls1 = (if d > 0 then [copy_in_frame i p e 1] else [])"
    using Update_objects_item [OF Suc.prems(1,2)] unfolding e_def d_def i_def by blast
  have d0: "0 \<le> d" using Suc.prems(3) by (simp add: d_def e_def)
  have p1: "p < length (mAllRitems st1)" using l1 Suc.prems(2) by simp
  have nn1: "0 \<le> NumFramesDirty (mAllRitems st1 ! p)" using e1 d0 by (simp add: d_def)
  obtain st2 calls2 where
    R: "run_object_frames n st1 = Done (st2, calls2)" and ok2: "app_ok st2"
    and l2: "length (mAllRitems st2) = length (mAllRitems st1)"
    and e2: "mAllRitems st2 ! p =
             (mAllRitems st1 ! p)\<lparr>NumFramesDirty :=
                NumFramesDirty (mAllRitems st1 ! p) - min (int n) (NumFramesDirty (mAllRitems st1 ! p))\<rparr>"
    and c2: "copies_of p calls2 =
             map (copy_in_frame (mCurrFrameResourceIndex st1) p (mAllRitems st1 ! p))
               [1..<Suc (min n (nat (NumFramesDirty (mAllRitems st1 ! p))))]"
    using Suc.IH [OF ok1 p1 nn1] by blast
  have run: "run_object_frames (Suc n) st = Done (st2, calls1 @ calls2)"
    using U R by simp
  have app: "copies_of p (calls1 @ calls2) = copies_of p calls1 @ copies_of p calls2"
    by (simp add: copies_of_def)
  show ?case
  proof (cases "d > 0")
    case True
    have nd: "nat d = Suc (nat (d - 1))" using True by simp
    have c2': "copies_of p calls2 = map (\<lambda>f. copy_in_frame i p e (Suc f)) [1..<Suc (min n (nat (d - 1)))]"
      using c2 e1 i1 True by (simp add: copy_in_frame_shift d_def)
    have "map (\<lambda>f. copy_in_frame i p e (Suc f)) [1..<Suc (min n (nat (d - 1)))]
            = map (copy_in_frame i p e) (map Suc [1..<Suc (min n (nat (d - 1)))])"
      by (simp add: comp_def del: upt_Suc)
    also have "map Suc [1..<Suc (min n (nat (d - 1)))] = [Suc 1..<Suc (Suc (min n (nat (d - 1))))]"
      by (rule map_Suc_upt)
    finally have sh: "copies_of p calls2
            = map (copy_in_frame i p e) [Suc 1..<Suc (Suc (min n (nat (d - 1))))]"
      using c2' by simp
    have mn: "min (Suc n) (nat d) = Suc (min n (nat (d - 1)))"
      using nd by simp
    have "[1..<Suc (min (Suc n) (nat d))] = 1 # [Suc 1..<Suc (Suc (min n (nat (d - 1))))]"
      unfolding mn by (subst upt_rec) simp
    then have all: "copies_of p (calls1 @ calls2)
            = map (copy_in_frame i p e) [1..<Suc (min (Suc n) (nat d))]"
      using app c1 sh True by simp
    have cnt: "mAllRitems st2 ! p = e\<lparr>NumFramesDirty := d - min (int (Suc n)) d\<rparr>"
      using e2 e1 True by (simp add: d_def min_def)
    show ?thesis
      using run ok2 l1 l2 all cnt unfolding e_def [symmetric] d_def [symmetric] i_def [symmetric]
      by simp
  next
    case False
    then have dz: "d = 0" using d0 by simp
    have all: "copies_of p (calls1 @ calls2)
            = map (copy_in_frame i p e) [1..<Suc (min (Suc n) (nat d))]"
      using app c1 c2 e1 dz by (simp add: d_def)
    have cnt: "mAllRitems st2 ! p = e\<lparr>NumFramesDirty := d - min (int (Suc n)) d\<rparr>"
      using e2 e1 dz by (simp add: d_def)
    show ?thesis
      using run ok2 l1 l2 all cnt unfolding e_def [symmetric] d_def [symmetric] i_def [symmetric]
      by simp
  qed
qed


lemma UpdateObjectCBs_from_buffer_other:
  "(\<forall>e \<in> set es. NumFramesDirty e > 0 \<longrightarrow> ObjCBIndex e \<noteq> k) \<Longrightarrow>
     fst (UpdateObjectCBs_from s p cb es) k = cb k"
  by (induction es arbitrary: p cb) (auto simp: Let_def case_prod_beta CopyData_def)

lemma UpdateObjectCBs_from_buffer_item:
  "q < length es \<Longrightarrow> distinct (map ObjCBIndex es) \<Longrightarrow>
     fst (UpdateObjectCBs_from s p cb es) (ObjCBIndex (es ! q)) =
       (if NumFramesDirty (es ! q) > 0
        then Some \<lparr>cbWorld = XMMatrixTranspose (World (es ! q)),
                   cbTexTransform = XMMatrixTranspose (TexTransform (es ! q))\<rparr>
        else cb (ObjCBIndex (es ! q)))"
proof (induction es arbitrary: p q cb)
  case Nil
  then show ?case by simp
next
  case (Cons e es)
  have dist: "distinct (map ObjCBIndex es)" and fresh: "ObjCBIndex e \<notin> ObjCBIndex ` set es"
    using Cons.prems(2) by simp_all
  show ?case
  proof (cases q)
    case 0
    have other: "\<forall>e' \<in> set es. NumFramesDirty e' > 0 \<longrightarrow> ObjCBIndex e' \<noteq> ObjCBIndex e"
      using fresh by (metis imageI)
    have rest: "fst (UpdateObjectCBs_from s (Suc p) cb' es) (ObjCBIndex e) = cb' (ObjCBIndex e)" for cb'
      by (rule UpdateObjectCBs_from_buffer_other [OF other])
    show ?thesis
      using 0 rest by (simp add: Let_def case_prod_beta CopyData_def)
  next
    case (Suc q')
    then have q': "q' < length es" using Cons.prems(1) by simp
    then have ne: "ObjCBIndex (es ! q') \<noteq> ObjCBIndex e"
      using fresh by (metis image_eqI nth_mem)
    have ih: "fst (UpdateObjectCBs_from s (Suc p) cb' es) (ObjCBIndex (es ! q')) =
       (if NumFramesDirty (es ! q') > 0
        then Some \<lparr>cbWorld = XMMatrixTranspose (World (es ! q')),
                   cbTexTransform = XMMatrixTranspose (TexTransform (es ! q'))\<rparr>
        else cb' (ObjCBIndex (es ! q')))" for cb'
      by (rule Cons.IH [OF q' dist])
    show ?thesis
      using Suc ih ne by (simp add: Let_def case_prod_beta CopyData_def)
  qed
qed

lemma Update_objects_buffer:
  assumes ok: "app_ok st" and p: "p < length (mAllRitems st)"
    and dist: "distinct (map ObjCBIndex (mAllRitems st))"
    and U: "Update_objects st = Done (st1, calls)"
    and s: "s < nat gNumFrameResources"
  shows "map ObjCBIndex (mAllRitems st1) = map ObjCBIndex (mAllRitems st)
       \<and> (ObjectCB st1 ! s) (ObjCBIndex (mAllRitems st ! p)) =
           (if NumFramesDirty (mAllRitems st ! p) > 0
               \<and> int s = (mCurrFrameResourceIndex st + 1) mod gNumFrameResources
            then Some \<lparr>cbWorld = XMMatrixTranspose (World (mAllRitems st ! p)),
                       cbTexTransform = XMMatrixTranspose (TexTransform (mAllRitems st ! p))\<rparr>
            else (ObjectCB st ! s) (ObjCBIndex (mAllRitems st ! p)))"
proof -
  define idx where "idx = (mCurrFrameResourceIndex st + 1) mod gNumFrameResources"
  define r where "r = UpdateObjectCBs idx (ObjectCB st ! nat idx) (mAllRitems st)"
  have sm: "(mCurrFrameResourceIndex st + 1) smod gNumFrameResources = idx"
    using ok by (simp add: idx_def app_ok_def gNumFrameResources_def smod_int_alt_def sgn_if)
  have rng: "0 \<le> idx" "idx < gNumFrameResources"
    by (simp_all add: idx_def gNumFrameResources_def)
  then have inr: "\<not> (idx < 0 \<or> int (length (ObjectCB st)) \<le> idx)"
    using ok by (simp add: app_ok_def)
  have "Update_objects st =
      Done (st\<lparr>mCurrFrameResourceIndex := idx, mAllRitems := fst (snd r),
                ObjectCB := (ObjectCB st)[nat idx := fst r]\<rparr>, snd (snd r))"
    unfolding Update_objects_def sm Let_def r_def using inr by (simp add: case_prod_beta)
  then have st1: "st1 = st\<lparr>mCurrFrameResourceIndex := idx, mAllRitems := fst (snd r),
                ObjectCB := (ObjectCB st)[nat idx := fst r]\<rparr>"
    using U by simp
  have items: "fst (snd r) =
     map (\<lambda>e. if NumFramesDirty e > 0 then e\<lparr>NumFramesDirty := NumFramesDirty e - 1\<rparr> else e)
       (mAllRitems st)"
    unfolding r_def UpdateObjectCBs_def by (rule UpdateObjectCBs_from_items)
  have keys: "map ObjCBIndex (mAllRitems st1) = map ObjCBIndex (mAllRitems st)"
    unfolding st1 items by (simp add: comp_def if_distrib [of ObjCBIndex] cong: if_cong)
  have buf: "fst r (ObjCBIndex (mAllRitems st ! p)) =
       (if NumFramesDirty (mAllRitems st ! p) > 0
        then Some \<lparr>cbWorld = XMMatrixTranspose (World (mAllRitems st ! p)),
                   cbTexTransform = XMMatrixTranspose (TexTransform (mAllRitems st ! p))\<rparr>
        else (ObjectCB st ! nat idx) (ObjCBIndex (mAllRitems st ! p)))"
    unfolding r_def UpdateObjectCBs_def by (rule UpdateObjectCBs_from_buffer_item [OF p dist])
  have len: "length (ObjectCB st) = nat gNumFrameResources"
    using ok by (simp add: app_ok_def)
  have slot: "(ObjectCB st1 ! s) = (if s = nat idx then fst r else ObjectCB st ! s)"
    unfolding st1 using s len rng by (simp add: nth_list_update)
  have eq: "s = nat idx \<longleftrightarrow> int s = idx"
    using rng by auto
  have nat_idx: "int s = idx \<Longrightarrow> nat idx = s"
    by auto
  show ?thesis
    using keys buf slot eq nat_idx unfolding idx_def [symmetric] by auto
qed

lemma run_object_frames_buffer:
  assumes "app_ok st" "p < length (mAllRitems st)"
    and "distinct (map ObjCBIndex (mAllRitems st))"
    and "0 \<le> NumFramesDirty (mAllRitems st ! p)"
    and "s < nat gNumFrameResources"
    and "run_object_frames n st = Done (st', calls)"
  shows "map ObjCBIndex (mAllRitems st') = map ObjCBIndex (mAllRitems st)
       \<and> (ObjectCB st' ! s) (ObjCBIndex (mAllRitems st ! p)) =
           (if \<exists>f. 1 \<le> f \<and> f \<le> min n (nat (NumFramesDirty (mAllRitems st ! p)))
                    \<and> (mCurrFrameResourceIndex st + int f) mod gNumFrameResources = int s
            then Some \<lparr>cbWorld = XMMatrixTranspose (World (mAllRitems st ! p)),
                       cbTexTransform = XMMatrixTranspose (TexTransform (mAllRitems st ! p))\<rparr>
            else (ObjectCB st ! s) (ObjCBIndex (mAllRitems st ! p)))"
  using assms(1-4,6)
proof (induction n arbitrary: st calls)
  case 0
  then show ?case by simp
next
  case (Suc n)
  define e where "e = mAllRitems st ! p"
  define d where "d = NumFramesDirty e"
  define i where "i = mCurrFrameResourceIndex st"
  define rec where "rec = \<lparr>cbWorld = XMMatrixTranspose (World e),
                            cbTexTransform = XMMatrixTranspose (TexTransform e)\<rparr>"
  obtain st1 calls1 where
    U: "Update_objects st = Done (st1, calls1)" and ok1: "app_ok st1"
    and i1: "mCurrFrameResourceIndex st1 = (i + 1) mod gNumFrameResources"
    and l1: "length (mAllRitems st1) = length (mAllRitems st)"
    and e1: "mAllRitems st1 ! p = (if d > 0 then e\<lparr>NumFramesDirty := d - 1\<rparr> else e)"
    using Update_objects_item [OF Suc.prems(1,2)] unfolding e_def d_def i_def by blast
  have b1: "map ObjCBIndex (mAllRitems st1) = map ObjCBIndex (mAllRitems st)"
    and c1: "(ObjectCB st1 ! s) (ObjCBIndex e) =
           (if d > 0 \<and> int s = (i + 1) mod gNumFrameResources
            then Some rec else (ObjectCB st ! s) (ObjCBIndex e))"
    using Update_objects_buffer [OF Suc.prems(1,2,3) U assms(5)]
    unfolding e_def d_def i_def rec_def by simp_all
  obtain calls2 where R: "run_object_frames n st1 = Done (st', calls2)"
    using Suc.prems(5) U by (auto split: outcome.splits prod.splits)
  have d0: "0 \<le> d" using Suc.prems(4) by (simp add: d_def e_def)
  have p1: "p < length (mAllRitems st1)" using l1 Suc.prems(2) by simp
  have dist1: "distinct (map ObjCBIndex (mAllRitems st1))" using b1 Suc.prems(3) by simp
  have nn1: "0 \<le> NumFramesDirty (mAllRitems st1 ! p)" using e1 d0 by (simp add: d_def)
  note ih = Suc.IH [OF ok1 p1 dist1 nn1 R]
  have k1: "ObjCBIndex (mAllRitems st1 ! p) = ObjCBIndex e"
    and w1: "World (mAllRitems st1 ! p) = World e"
    and t1: "TexTransform (mAllRitems st1 ! p) = TexTransform e"
    using e1 by (simp_all split: if_splits)
  have d1: "nat (NumFramesDirty (mAllRitems st1 ! p)) = nat d - 1"
    using e1 d0 by (simp add: d_def nat_diff_distrib')
  have keys: "map ObjCBIndex (mAllRitems st') = map ObjCBIndex (mAllRitems st)"
    using ih b1 by simp
  have c2: "(ObjectCB st' ! s) (ObjCBIndex e) =
           (if \<exists>f. 1 \<le> f \<and> f \<le> min n (nat d - 1)
                    \<and> ((i + 1) mod gNumFrameResources + int f) mod gNumFrameResources = int s
            then Some rec else (ObjectCB st1 ! s) (ObjCBIndex e))"
    using ih unfolding k1 w1 t1 d1 i1 rec_def by simp
  have sh: "((i + 1) mod gNumFrameResources + int f) mod gNumFrameResources
              = (i + int (Suc f)) mod gNumFrameResources" for f
    by (simp add: mod_add_left_eq add.assoc)
  have iff: "((\<exists>f. 1 \<le> f \<and> f \<le> min n (nat d - 1)
                    \<and> (i + int (Suc f)) mod gNumFrameResources = int s)
               \<or> (d > 0 \<and> int s = (i + 1) mod gNumFrameResources))
             \<longleftrightarrow> (\<exists>f. 1 \<le> f \<and> f \<le> min (Suc n) (nat d)
                    \<and> (i + int f) mod gNumFrameResources = int s)" (is "?L \<longleftrightarrow> ?R")
  proof
    assume ?L
    then show ?R
    proof
      assume "\<exists>f. 1 \<le> f \<and> f \<le> min n (nat d - 1)
                    \<and> (i + int (Suc f)) mod gNumFrameResources = int s"
      then obtain f where f: "1 \<le> f" "f \<le> min n (nat d - 1)"
          "(i + int (Suc f)) mod gNumFrameResources = int s" by blast
      have "1 \<le> Suc f \<and> Suc f \<le> min (Suc n) (nat d)" using f(1,2) by auto
      then show ?R using f(3) by blast
    next
      assume a: "d > 0 \<and> int s = (i + 1) mod gNumFrameResources"
      then have "(1::nat) \<le> 1 \<and> 1 \<le> min (Suc n) (nat d)
                  \<and> (i + int 1) mod gNumFrameResources = int s" by auto
      then show ?R by blast
    qed
  next
    assume ?R
    then obtain f where f: "1 \<le> f" "f \<le> min (Suc n) (nat d)"
        "(i + int f) mod gNumFrameResources = int s" by blast
    show ?L
    proof (cases "f = 1")
      case True
      then have "d > 0 \<and> int s = (i + 1) mod gNumFrameResources" using f by auto
      then show ?thesis by blast
    next
      case False
      then obtain g where g: "f = Suc g" "1 \<le> g" using f(1) by (cases f) auto
      have "g \<le> min n (nat d - 1)" using f(2) g by auto
      then show ?thesis using g f(3) by blast
    qed
  qed
  have "(ObjectCB st' ! s) (ObjCBIndex e) =
           (if \<exists>f. 1 \<le> f \<and> f \<le> min (Suc n) (nat d)
                    \<and> (i + int f) mod gNumFrameResources = int s
            then Some rec else (ObjectCB st ! s) (ObjCBIndex e))"
    unfolding c2 sh c1 using iff by auto
  then show ?case
    using keys unfolding e_def d_def i_def rec_def by simp
qed

lemma every_slot_visited:
  assumes "s < nat gNumFrameResources"
  shows "\<exists>f. 1 \<le> f \<and> f \<le> nat gNumFrameResources
             \<and> (i + int f) mod gNumFrameResources = int s"
proof -
  define r where "r = (int s - i) mod 3"
  have r: "0 \<le> r" "r < 3" by (simp_all add: r_def)
  have s3: "int s < 3" "0 \<le> int s" using assms by (simp_all add: gNumFrameResources_def)
  have m: "(i + r) mod 3 = int s"
    unfolding r_def using s3 by (simp add: mod_add_right_eq)
  show ?thesis
  proof (cases "r = 0")
    case True
    then have "(i + int 3) mod 3 = int s" using m by simp
    then show ?thesis
      unfolding gNumFrameResources_def by (intro exI [of _ 3]) simp
  next
    case False
    then have "1 \<le> nat r \<and> nat r \<le> 3 \<and> (i + int (nat r)) mod 3 = int s"
      using r m by auto
    then show ?thesis
      unfolding gNumFrameResources_def by (intro exI [of _ "nat r"]) simp
  qed
qed

text \<open>
  Claim C3. Take a render item whose \<^verbatim>\<open>NumFramesDirty\<close> has just been set to
  \<^verbatim>\<open>gNumFrameResources\<close>. After \<open>n\<close> further frames the counter is
  \<open>K - min n K\<close>, and the copies made for the item are exactly those of the first
  \<open>min n K\<close> frames, one per frame, each into the slot that is current in its frame
  (the slots \<open>i + 1\<close>, \<open>i + 2\<close>, ... modulo \<open>K\<close>) with the transposed matrices of the
  item. When the items have distinct constant-buffer indices, the buffers show it: at
  the item's index, the \<^verbatim>\<open>ObjectCB\<close> of a slot holds the item's record if the slot was
  current in one of those frames and what it held before otherwise, so that after \<open>K\<close>
  frames every slot holds the record. So exactly \<open>K\<close> frames copy, the counter falls by
  one each time and is zero after \<open>K\<close> frames, and a frame after that makes no copy for
  the item and leaves the buffers at its index as they are.
\<close>

theorem dirty_counter_propagation:
  assumes "app_ok st" "p < length (mAllRitems st)"
    and "NumFramesDirty (mAllRitems st ! p) = gNumFrameResources"
  shows "\<exists>st' calls.
           run_object_frames n st = Done (st', calls)
         \<and> NumFramesDirty (mAllRitems st' ! p) = gNumFrameResources - min (int n) gNumFrameResources
         \<and> copies_of p calls =
             map (copy_in_frame (mCurrFrameResourceIndex st) p (mAllRitems st ! p))
               [1..<Suc (min n (nat gNumFrameResources))]
         \<and> (distinct (map ObjCBIndex (mAllRitems st)) \<longrightarrow>
               (\<forall>s < nat gNumFrameResources.
                  (ObjectCB st' ! s) (ObjCBIndex (mAllRitems st ! p)) =
                    (if \<exists>f. 1 \<le> f \<and> f \<le> min n (nat gNumFrameResources)
                             \<and> (mCurrFrameResourceIndex st + int f) mod gNumFrameResources = int s
                     then Some \<lparr>cbWorld = XMMatrixTranspose (World (mAllRitems st ! p)),
                                cbTexTransform = XMMatrixTranspose (TexTransform (mAllRitems st ! p))\<rparr>
                     else (ObjectCB st ! s) (ObjCBIndex (mAllRitems st ! p)))))
         \<and> (nat gNumFrameResources \<le> n \<longrightarrow>
               (distinct (map ObjCBIndex (mAllRitems st)) \<longrightarrow>
                  (\<forall>s < nat gNumFrameResources.
                     (ObjectCB st' ! s) (ObjCBIndex (mAllRitems st ! p)) =
                       Some \<lparr>cbWorld = XMMatrixTranspose (World (mAllRitems st ! p)),
                             cbTexTransform = XMMatrixTranspose (TexTransform (mAllRitems st ! p))\<rparr>))
               \<and> (\<exists>st'' calls'. Update_objects st' = Done (st'', calls') \<and> copies_of p calls' = []
                  \<and> NumFramesDirty (mAllRitems st'' ! p) = 0
                  \<and> (distinct (map ObjCBIndex (mAllRitems st)) \<longrightarrow>
                        (\<forall>s < nat gNumFrameResources.
                           (ObjectCB st'' ! s) (ObjCBIndex (mAllRitems st ! p)) =
                             (ObjectCB st' ! s) (ObjCBIndex (mAllRitems st ! p))))))"
proof -
  define e where "e = mAllRitems st ! p"
  define i where "i = mCurrFrameResourceIndex st"
  define rec where "rec = \<lparr>cbWorld = XMMatrixTranspose (World e),
                            cbTexTransform = XMMatrixTranspose (TexTransform e)\<rparr>"
  have d3: "NumFramesDirty e = gNumFrameResources"
    using assms(3) by (simp add: e_def)
  have nn: "0 \<le> NumFramesDirty (mAllRitems st ! p)"
    using assms(3) by (simp add: gNumFrameResources_def)
  obtain st' calls where
    R: "run_object_frames n st = Done (st', calls)" and ok: "app_ok st'"
    and l: "length (mAllRitems st') = length (mAllRitems st)"
    and e': "mAllRitems st' ! p = e\<lparr>NumFramesDirty := NumFramesDirty e - min (int n) (NumFramesDirty e)\<rparr>"
    and c: "copies_of p calls = map (copy_in_frame i p e) [1..<Suc (min n (nat (NumFramesDirty e)))]"
    using run_object_frames_item [OF assms(1,2) nn, of n] unfolding e_def i_def by blast
  have cnt: "NumFramesDirty (mAllRitems st' ! p) = gNumFrameResources - min (int n) gNumFrameResources"
    using e' d3 by simp
  have c': "copies_of p calls = map (copy_in_frame i p e) [1..<Suc (min n (nat gNumFrameResources))]"
    using c d3 by simp
  have p': "p < length (mAllRitems st')" using l assms(2) by simp
  have k': "ObjCBIndex (mAllRitems st' ! p) = ObjCBIndex e" using e' by simp
  have buf: "(ObjectCB st' ! s) (ObjCBIndex e) =
                    (if \<exists>f. 1 \<le> f \<and> f \<le> min n (nat gNumFrameResources)
                             \<and> (i + int f) mod gNumFrameResources = int s
                     then Some rec else (ObjectCB st ! s) (ObjCBIndex e))"
    and keys: "map ObjCBIndex (mAllRitems st') = map ObjCBIndex (mAllRitems st)"
    if "distinct (map ObjCBIndex (mAllRitems st))" "s < nat gNumFrameResources" for s
    using run_object_frames_buffer [OF assms(1,2) that(1) nn that(2) R] d3
    unfolding e_def [symmetric] i_def [symmetric] rec_def [symmetric] by simp_all
  have full: "(ObjectCB st' ! s) (ObjCBIndex e) = Some rec"
    if "nat gNumFrameResources \<le> n" "distinct (map ObjCBIndex (mAllRitems st))"
      "s < nat gNumFrameResources" for s
  proof -
    have m: "min n (nat gNumFrameResources) = nat gNumFrameResources"
      using that(1) by simp
    show ?thesis
      using buf [OF that(2,3)] every_slot_visited [OF that(3), of i] unfolding m by simp
  qed
  have later: "\<exists>st'' calls'. Update_objects st' = Done (st'', calls') \<and> copies_of p calls' = []
                  \<and> NumFramesDirty (mAllRitems st'' ! p) = 0
                  \<and> (distinct (map ObjCBIndex (mAllRitems st)) \<longrightarrow>
                        (\<forall>s < nat gNumFrameResources.
                           (ObjectCB st'' ! s) (ObjCBIndex e) = (ObjectCB st' ! s) (ObjCBIndex e)))"
    if "nat gNumFrameResources \<le> n"
  proof -
    have z: "NumFramesDirty (mAllRitems st' ! p) = 0"
      using cnt that by (simp add: gNumFrameResources_def)
    obtain st'' calls' where U: "Update_objects st' = Done (st'', calls')"
      and c0: "copies_of p calls' = []" and z': "NumFramesDirty (mAllRitems st'' ! p) = 0"
      using Update_objects_item [OF ok p'] z by auto
    have same: "(ObjectCB st'' ! s) (ObjCBIndex e) = (ObjectCB st' ! s) (ObjCBIndex e)"
      if "distinct (map ObjCBIndex (mAllRitems st))" "s < nat gNumFrameResources" for s
    proof -
      have "distinct (map ObjCBIndex (mAllRitems st'))" using keys [OF that] that(1) by simp
      then show ?thesis
        using Update_objects_buffer [OF ok p' _ U that(2)] z k' by simp
    qed
    show ?thesis using U c0 z' same by blast
  qed
  show ?thesis
    using R cnt c' buf full later
    unfolding e_def [symmetric] i_def [symmetric] rec_def [symmetric]
    by (intro exI [of _ st'] exI [of _ calls]) blast
qed

theorem dirty_counter_propagation_witness:
  "app_ok \<lparr>mFrameResources = [0, 0, 0], mCurrFrameResourceIndex = 0, mCurrentFence = 0,
      mAllRitems = [\<lparr>World = (\<lambda>r c. real r), TexTransform = (\<lambda>r c. 0),
                      NumFramesDirty = 3, ObjCBIndex = 7, Mat = ''water'', Geo = ''waterGeo'',
                      PrimitiveType = D3D_PRIMITIVE_TOPOLOGY_TRIANGLELIST,
                      IndexCount = 6, StartIndexLocation = 0, BaseVertexLocation = 0\<rparr>],
      ObjectCB = [Map.empty, Map.empty, Map.empty]\<rparr>
   \<and> (\<exists>st' calls.
        run_object_frames 4
          \<lparr>mFrameResources = [0, 0, 0], mCurrFrameResourceIndex = 0, mCurrentFence = 0,
            mAllRitems = [\<lparr>World = (\<lambda>r c. real r), TexTransform = (\<lambda>r c. 0),
                      NumFramesDirty = 3, ObjCBIndex = 7, Mat = ''water'', Geo = ''waterGeo'',
                      PrimitiveType = D3D_PRIMITIVE_TOPOLOGY_TRIANGLELIST,
                      IndexCount = 6, StartIndexLocation = 0, BaseVertexLocation = 0\<rparr>],
            ObjectCB = [Map.empty, Map.empty, Map.empty]\<rparr> = Done (st', calls)
        \<and> NumFramesDirty (mAllRitems st' ! 0) = 0
        \<and> map copy_slot (copies_of 0 calls) = [1, 2, 0]
        \<and> (ObjectCB st' ! 0) 7 = Some \<lparr>cbWorld = (\<lambda>row col. real col), cbTexTransform = (\<lambda>row col. 0)\<rparr>
        \<and> (ObjectCB st' ! 1) 7 = Some \<lparr>cbWorld = (\<lambda>row col. real col), cbTexTransform = (\<lambda>row col. 0)\<rparr>
        \<and> (ObjectCB st' ! 2) 7 = Some \<lparr>cbWorld = (\<lambda>row col. real col), cbTexTransform = (\<lambda>row col. 0)\<rparr>)"
proof -
  let ?e = "\<lparr>World = (\<lambda>r c. real r), TexTransform = (\<lambda>r c. 0),
                      NumFramesDirty = 3, ObjCBIndex = 7, Mat = ''water'', Geo = ''waterGeo'',
                      PrimitiveType = D3D_PRIMITIVE_TOPOLOGY_TRIANGLELIST,
                      IndexCount = 6, StartIndexLocation = 0, BaseVertexLocation = 0\<rparr>"
  let ?st = "\<lparr>mFrameResources = [0, 0, 0], mCurrFrameResourceIndex = 0, mCurrentFence = 0,
      mAllRitems = [?e], ObjectCB = [Map.empty, Map.empty, Map.empty]\<rparr>"
  let ?rec = "\<lparr>cbWorld = (\<lambda>row col. real col), cbTexTransform = (\<lambda>row col. 0)\<rparr>"
  have ok: "app_ok ?st" by (simp add: app_ok_def gNumFrameResources_def)
  have p: "0 < length (mAllRitems ?st)" by simp
  have d: "NumFramesDirty (mAllRitems ?st ! 0) = gNumFrameResources"
    by (simp add: gNumFrameResources_def)
  have dist: "distinct (map ObjCBIndex (mAllRitems ?st))" by simp
  have r: "[1..<Suc (min 4 (nat gNumFrameResources))] = [1, 2, 3]"
    by (simp add: gNumFrameResources_def upt_rec)
  have four: "nat gNumFrameResources \<le> 4" by (simp add: gNumFrameResources_def)
  obtain st' calls where R: "run_object_frames 4 ?st = Done (st', calls)"
    and cnt: "NumFramesDirty (mAllRitems st' ! 0) = gNumFrameResources - min (int 4) gNumFrameResources"
    and c: "copies_of 0 calls =
             map (copy_in_frame (mCurrFrameResourceIndex ?st) 0 (mAllRitems ?st ! 0)) [1, 2, 3]"
    and full: "nat gNumFrameResources \<le> 4 \<longrightarrow>
               (distinct (map ObjCBIndex (mAllRitems ?st)) \<longrightarrow>
                  (\<forall>s < nat gNumFrameResources.
                     (ObjectCB st' ! s) (ObjCBIndex (mAllRitems ?st ! 0)) =
                       Some \<lparr>cbWorld = XMMatrixTranspose (World (mAllRitems ?st ! 0)),
                             cbTexTransform = XMMatrixTranspose (TexTransform (mAllRitems ?st ! 0))\<rparr>))
               \<and> (\<exists>st'' calls'. Update_objects st' = Done (st'', calls') \<and> copies_of 0 calls' = []
                  \<and> NumFramesDirty (mAllRitems st'' ! 0) = 0
                  \<and> (distinct (map ObjCBIndex (mAllRitems ?st)) \<longrightarrow>
                        (\<forall>s < nat gNumFrameResources.
                           (ObjectCB st'' ! s) (ObjCBIndex (mAllRitems ?st ! 0)) =
                             (ObjectCB st' ! s) (ObjCBIndex (mAllRitems ?st ! 0)))))"
    using dirty_counter_propagation [OF ok p d, of 4] unfolding r by (elim exE conjE)
  have all: "\<forall>s < nat gNumFrameResources.
                     (ObjectCB st' ! s) (ObjCBIndex (mAllRitems ?st ! 0)) =
                       Some \<lparr>cbWorld = XMMatrixTranspose (World (mAllRitems ?st ! 0)),
                             cbTexTransform = XMMatrixTranspose (TexTransform (mAllRitems ?st ! 0))\<rparr>"
    using full four dist by blast
  have b: "(ObjectCB st' ! s) 7 = Some ?rec" if "s < 3" for s
    using all [rule_format, of s] that by (simp add: gNumFrameResources_def XMMatrixTranspose_def)
  have z: "NumFramesDirty (mAllRitems st' ! 0) = 0"
    using cnt by (simp add: gNumFrameResources_def)
  have sl: "map copy_slot (copies_of 0 calls) = [1, 2, 0]"
    unfolding c by (simp add: copy_in_frame_def gNumFrameResources_def)
  show ?thesis
  proof (intro conjI exI [of _ st'] exI [of _ calls])
    show "app_ok ?st" by (rule ok)
    show "run_object_frames 4 ?st = Done (st', calls)" by (rule R)
    show "NumFramesDirty (mAllRitems st' ! 0) = 0" by (rule z)
    show "map copy_slot (copies_of 0 calls) = [1, 2, 0]" by (rule sl)
    show "(ObjectCB st' ! 0) 7 = Some ?rec" by (rule b) simp
    show "(ObjectCB st' ! 1) 7 = Some ?rec" by (rule b) simp
    show "(ObjectCB st' ! 2) 7 = Some ?rec" by (rule b) simp
  qed
qed

section \<open>Properties of the draw submission\<close>

lemma DrawRenderItems_Some:
  "(\<forall>ri \<in> set ritems. Mat ri \<in> dom mats) \<Longrightarrow> \<exists>cs. DrawRenderItems mats ritems = Some cs"
  by (induction ritems) auto

lemma submitted_DrawRenderItems:
  "DrawRenderItems mats ritems = Some cs \<Longrightarrow>
     submitted pso (cs @ rest) = map (\<lambda>ri. (pso, draw_call ri)) ritems @ submitted pso rest"
proof (induction ritems arbitrary: cs)
  case Nil
  then show ?case by simp
next
  case (Cons ri ritems)
  then show ?case
    by (auto simp: draw_call_def split: option.splits)
qed

text \<open>
  Claim C6. In every frame whose render items all have a material, \<^verbatim>\<open>Draw\<close> submits
  the draw calls of the opaque layer first (under the pipeline state \<^verbatim>\<open>opaque\<close>), then
  those of the alpha-tested layer, then those of the alpha-tested tree sprites, and the
  draw calls of the transparent layer last, each layer in the order of its items and
  under its own pipeline state; nothing is drawn after the transparent layer.
\<close>

theorem draw_layer_order:
  assumes "\<forall>ri \<in> set (mRitemLayer Opaque @ mRitemLayer AlphaTested
                        @ mRitemLayer AlphaTestedTreeSprites @ mRitemLayer Transparent).
             Mat ri \<in> dom mMaterials"
  shows "\<exists>cmds. Draw mMaterials mRitemLayer = Some cmds
           \<and> submitted pso cmds =
               map (\<lambda>ri. (''opaque'', draw_call ri)) (mRitemLayer Opaque)
             @ map (\<lambda>ri. (''alphaTested'', draw_call ri)) (mRitemLayer AlphaTested)
             @ map (\<lambda>ri. (''treeSprites'', draw_call ri)) (mRitemLayer AlphaTestedTreeSprites)
             @ map (\<lambda>ri. (''transparent'', draw_call ri)) (mRitemLayer Transparent)"
proof -
  obtain c1 where c1: "DrawRenderItems mMaterials (mRitemLayer Opaque) = Some c1"
    using assms DrawRenderItems_Some [of "mRitemLayer Opaque" mMaterials] by auto
  obtain c2 where c2: "DrawRenderItems mMaterials (mRitemLayer AlphaTested) = Some c2"
    using assms DrawRenderItems_Some [of "mRitemLayer AlphaTested" mMaterials] by auto
  obtain c3 where c3: "DrawRenderItems mMaterials (mRitemLayer AlphaTestedTreeSprites) = Some c3"
    using assms DrawRenderItems_Some [of "mRitemLayer AlphaTestedTreeSprites" mMaterials] by auto
  obtain c4 where c4: "DrawRenderItems mMaterials (mRitemLayer Transparent) = Some c4"
    using assms DrawRenderItems_Some [of "mRitemLayer Transparent" mMaterials] by auto
  have D: "Draw mMaterials mRitemLayer =
          Some ([Reset ''opaque'', RSSetViewports, RSSetScissorRects,
                 ResourceBarrier_to_render_target, ClearRenderTargetView, ClearDepthStencilView,
                 OMSetRenderTargets, SetDescriptorHeaps, SetGraphicsRootSignature,
                 SetGraphicsRootConstantBufferView 2 PassCB_address]
                @ c1
                @ [SetPipelineState ''alphaTested''] @ c2
                @ [SetPipelineState ''treeSprites''] @ c3
                @ [SetPipelineState ''transparent''] @ c4
                @ [ResourceBarrier_to_present, Close, ExecuteCommandLists, Present])"
    by (simp add: Draw_def c1 c2 c3 c4)
  show ?thesis
    unfolding D
    by (simp add: submitted_DrawRenderItems [OF c1] submitted_DrawRenderItems [OF c2]
        submitted_DrawRenderItems [OF c3] submitted_DrawRenderItems [OF c4])
qed

theorem draw_layer_order_witness:
  "(\<exists>cmds.
        Draw [''grass'' \<mapsto> \<lparr>MatCBIndex = 0, DiffuseSrvHeapIndex = 0,
                                Material_NumFramesDirty = 3, MatTransform = (\<lambda>r c. 0)\<rparr>,
              ''water'' \<mapsto> \<lparr>MatCBIndex = 1, DiffuseSrvHeapIndex = 1,
                                Material_NumFramesDirty = 3, MatTransform = (\<lambda>r c. 0)\<rparr>]
          (\<lambda>l. case l of
                 Opaque \<Rightarrow> [\<lparr>World = (\<lambda>r c. 0), TexTransform = (\<lambda>r c. 0),
                     NumFramesDirty = 3, ObjCBIndex = 1,
                     Mat = ''grass'', Geo = ''landGeo'',
                     PrimitiveType = D3D_PRIMITIVE_TOPOLOGY_TRIANGLELIST,
                     IndexCount = 12, StartIndexLocation = 0, BaseVertexLocation = 0\<rparr>]
               | Transparent \<Rightarrow> [\<lparr>World = (\<lambda>r c. 0), TexTransform = (\<lambda>r c. 0),
                     NumFramesDirty = 3, ObjCBIndex = 0,
                     Mat = ''water'', Geo = ''waterGeo'',
                     PrimitiveType = D3D_PRIMITIVE_TOPOLOGY_TRIANGLELIST,
                     IndexCount = 6, StartIndexLocation = 0, BaseVertexLocation = 0\<rparr>]
               | AlphaTested \<Rightarrow> []
               | AlphaTestedTreeSprites \<Rightarrow> []) = Some cmds
        \<and> submitted ''none'' cmds =
            [(''opaque'', DrawIndexedInstanced 12 1 0 0 0),
             (''transparent'', DrawIndexedInstanced 6 1 0 0 0)])"
proof -
  let ?g = "\<lparr>World = (\<lambda>r c. 0), TexTransform = (\<lambda>r c. 0),
                     NumFramesDirty = 3, ObjCBIndex = 1,
                     Mat = ''grass'', Geo = ''landGeo'',
                     PrimitiveType = D3D_PRIMITIVE_TOPOLOGY_TRIANGLELIST,
                     IndexCount = 12, StartIndexLocation = 0, BaseVertexLocation = 0\<rparr>"
  let ?w = "\<lparr>World = (\<lambda>r c. 0), TexTransform = (\<lambda>r c. 0),
                     NumFramesDirty = 3, ObjCBIndex = 0,
                     Mat = ''water'', Geo = ''waterGeo'',
                     PrimitiveType = D3D_PRIMITIVE_TOPOLOGY_TRIANGLELIST,
                     IndexCount = 6, StartIndexLocation = 0, BaseVertexLocation = 0\<rparr>"
  let ?L = "\<lambda>l. case l of Opaque \<Rightarrow> [?g] | Transparent \<Rightarrow> [?w]
               | AlphaTested \<Rightarrow> [] | AlphaTestedTreeSprites \<Rightarrow> []"
  let ?M = "[''grass'' \<mapsto> \<lparr>MatCBIndex = 0, DiffuseSrvHeapIndex = 0,
                                Material_NumFramesDirty = 3, MatTransform = (\<lambda>r c. 0)\<rparr>,
              ''water'' \<mapsto> \<lparr>MatCBIndex = 1, DiffuseSrvHeapIndex = 1,
                                Material_NumFramesDirty = 3, MatTransform = (\<lambda>r c. 0)\<rparr>]"
  have h: "\<forall>ri \<in> set (?L Opaque @ ?L AlphaTested @ ?L AlphaTestedTreeSprites @ ?L Transparent).
             Mat ri \<in> dom ?M"
    by simp
  obtain cmds where d: "Draw ?M ?L = Some cmds"
    and s: "submitted ''none'' cmds =
               map (\<lambda>ri. (''opaque'', draw_call ri)) (?L Opaque)
             @ map (\<lambda>ri. (''alphaTested'', draw_call ri)) (?L AlphaTested)
             @ map (\<lambda>ri. (''treeSprites'', draw_call ri)) (?L AlphaTestedTreeSprites)
             @ map (\<lambda>ri. (''transparent'', draw_call ri)) (?L Transparent)"
    using draw_layer_order [OF h, of "''none''"] by (elim exE conjE)
  have s': "submitted ''none'' cmds =
            [(''opaque'', DrawIndexedInstanced 12 1 0 0 0),
             (''transparent'', DrawIndexedInstanced 6 1 0 0 0)]"
    unfolding s by (simp add: draw_call_def)
  show ?thesis
  proof (intro conjI exI [of _ cmds])
    show "Draw ?M ?L = Some cmds" by (rule d)
    show "submitted ''none'' cmds =
            [(''opaque'', DrawIndexedInstanced 12 1 0 0 0),
             (''transparent'', DrawIndexedInstanced 6 1 0 0 0)]" by (rule s')
  qed
qed


section \<open>Properties of the single-precision constants\<close>

lemma float_0_1_value: "float_0_1 = 13421773 / 134217728"
  by (simp add: float_0_1_def round_to_def nearest_even_def Let_def)

lemma float_0_2_value: "float_0_2 = 13421773 / 67108864"
  by (simp add: float_0_2_def round_to_def nearest_even_def Let_def)

lemma float_0_02_value: "float_0_02 = 5368709 / 268435456"
  by (simp add: float_0_02_def round_to_def nearest_even_def Let_def)


lemma arctan_partial_sums:
  assumes "0 < x" "x \<le> 1"
  shows "(\<Sum>k<2 * n. (- 1) ^ k * (1 / real (k * 2 + 1) * x ^ (k * 2 + 1))) \<le> arctan x"
    and "arctan x \<le> (\<Sum>k<2 * n + 1. (- 1) ^ k * (1 / real (k * 2 + 1) * x ^ (k * 2 + 1)))"
proof -
  have ax: "\<bar>x\<bar> \<le> 1" using assms by simp
  have pos: "0 < 1 / real (0 * 2 + 1) * x ^ (0 * 2 + 1)" using assms by simp
  have "(\<Sum>k. (- 1) ^ k * (1 / real (k * 2 + 1) * x ^ (k * 2 + 1)))
          \<in> {\<Sum>k<2 * n. (- 1) ^ k * (1 / real (k * 2 + 1) * x ^ (k * 2 + 1)) ..
              \<Sum>k<2 * n + 1. (- 1) ^ k * (1 / real (k * 2 + 1) * x ^ (k * 2 + 1))}"
    using summable_Leibniz(2) [OF zeroseq_arctan_series [OF ax] monoseq_arctan_series [OF ax]] pos
    by blast
  then show "(\<Sum>k<2 * n. (- 1) ^ k * (1 / real (k * 2 + 1) * x ^ (k * 2 + 1))) \<le> arctan x"
    and "arctan x \<le> (\<Sum>k<2 * n + 1. (- 1) ^ k * (1 / real (k * 2 + 1) * x ^ (k * 2 + 1)))"
    unfolding arctan_series [OF ax] by simp_all
qed

lemma pi_upper: "pi < 3.1415927"
proof -
  have a: "arctan (1 / 5) \<le> (\<Sum>k<2 * 2 + 1. (- 1) ^ k * (1 / real (k * 2 + 1) * (1 / 5) ^ (k * 2 + 1)))"
    by (rule arctan_partial_sums) simp_all
  have b: "(\<Sum>k<2 * 1. (- 1) ^ k * (1 / real (k * 2 + 1) * (1 / 239) ^ (k * 2 + 1))) \<le> arctan (1 / 239)"
    by (rule arctan_partial_sums) simp_all
  have a': "arctan (1 / 5) \<le> 1 / 5 - 1 / 375 + 1 / 15625 - 1 / 546875 + 1 / 17578125"
    using a by (simp add: lessThan_Suc eval_nat_numeral)
  have b': "1 / 239 - 1 / 40955757 \<le> arctan (1 / 239)"
    using b by (simp add: lessThan_Suc eval_nat_numeral)
  have "pi = 16 * arctan (1 / 5) - 4 * arctan (1 / 239)"
    using machin by simp
  then show ?thesis using a' b' by simp
qed

lemma pi_lower: "3.14159263 < pi"
proof -
  have a: "(\<Sum>k<2 * 3. (- 1) ^ k * (1 / real (k * 2 + 1) * (1 / 5) ^ (k * 2 + 1))) \<le> arctan (1 / 5)"
    by (rule arctan_partial_sums) simp_all
  have b: "arctan (1 / 239) \<le> (\<Sum>k<2 * 1 + 1. (- 1) ^ k * (1 / real (k * 2 + 1) * (1 / 239) ^ (k * 2 + 1)))"
    by (rule arctan_partial_sums) simp_all
  have a': "1 / 5 - 1 / 375 + 1 / 15625 - 1 / 546875 + 1 / 17578125 - 1 / 537109375 \<le> arctan (1 / 5)"
    using a by (simp add: lessThan_Suc eval_nat_numeral)
  have b': "arctan (1 / 239) \<le> 1 / 239 - 1 / 40955757 + 1 / 3899056325995"
    using b by (simp add: lessThan_Suc eval_nat_numeral)
  have "pi = 16 * arctan (1 / 5) - 4 * arctan (1 / 239)"
    using machin by simp
  then show ?thesis using a' b' by simp
qed

lemma MathHelper_Pi_nearest: "MathHelper_Pi = round_to (1 / 2 ^ 22) pi"
proof -
  have lo: "13176794 + 1 / 2 < pi * 4194304" and hi: "pi * 4194304 < 13176795"
    using pi_lower pi_upper by simp_all
  have f: "\<lfloor>pi * 4194304\<rfloor> = 13176794"
    using lo hi by (intro floor_unique) simp_all
  show ?thesis
    using lo by (simp add: MathHelper_Pi_def round_to_def nearest_even_def Let_def f)
qed

lemma fl_bounds:
  assumes "0 \<le> x"
  shows "x * (1 - float_eps) \<le> fl \<delta> x" and "fl \<delta> x \<le> x * (1 + float_eps)"
proof -
  have "1 - float_eps \<le> 1 + max (- float_eps) (min float_eps (\<delta> x))"
    and "1 + max (- float_eps) (min float_eps (\<delta> x)) \<le> 1 + float_eps"
    by (simp_all add: float_eps_def)
  then show "x * (1 - float_eps) \<le> fl \<delta> x" and "fl \<delta> x \<le> x * (1 + float_eps)"
    unfolding fl_def using assms by (simp_all add: mult_left_mono)
qed


section \<open>Properties of the camera\<close>








section \<open>Properties of the material animation\<close>

text \<open>
  Claim C8. The claim is that the offsets \<open>tu\<close>, \<open>tv\<close> of the water material (the
  elements \<open>(3, 0)\<close> and \<open>(3, 1)\<close> of \<^verbatim>\<open>MatTransform\<close>) are in \<open>[0, 1)\<close> after the step
  when they were before it, for every nonnegative delta time. \<^verbatim>\<open>AnimateMaterials\<close>
  subtracts 1 once, which brings back only an offset below 2: with both offsets 0 and a
  delta time of 25 seconds the step succeeds, marks the material dirty, and leaves \<open>tu\<close>
  between \<open>1.49\<close> and \<open>1.51\<close>, whatever the rounding of the arithmetic.
\<close>

theorem water_offset_not_wrapped:
  "\<forall>\<delta>. \<exists>mats' w'.
      AnimateMaterials \<delta> 25
        [''water'' \<mapsto> \<lparr>MatCBIndex = 1, DiffuseSrvHeapIndex = 1, Material_NumFramesDirty = 0,
                           MatTransform = (\<lambda>r c. 0)\<rparr>] = Some mats'
    \<and> mats' ''water'' = Some w'
    \<and> Material_NumFramesDirty w' = 3
    \<and> 1.49 < MatTransform w' 3 0 \<and> MatTransform w' 3 0 < 1.51
    \<and> \<not> MatTransform w' 3 0 < 1"
proof
  fix \<delta> :: "real \<Rightarrow> real"
  let ?w = "\<lparr>MatCBIndex = 1, DiffuseSrvHeapIndex = 1, Material_NumFramesDirty = 0,
              MatTransform = (\<lambda>r c. 0 :: real)\<rparr>"
  define a where "a = fl \<delta> (float_0_1 * 25)"
  define tu1 where "tu1 = fl \<delta> (0 + a)"
  define tu where "tu = (if tu1 \<ge> 1 then fl \<delta> (tu1 - 1) else tu1)"
  define b where "b = fl \<delta> (float_0_02 * 25)"
  define tv1 where "tv1 = fl \<delta> (0 + b)"
  define tv where "tv = (if tv1 \<ge> 1 then fl \<delta> (tv1 - 1) else tv1)"
  define w' where "w' = ?w\<lparr>MatTransform :=
      (MatTransform ?w)(3 := (MatTransform ?w 3)(0 := tu, 1 := tv)),
      Material_NumFramesDirty := gNumFrameResources\<rparr>"
  have A: "AnimateMaterials \<delta> 25 [''water'' \<mapsto> ?w] = Some ([''water'' \<mapsto> ?w](''water'' \<mapsto> w'))"
    by (simp add: AnimateMaterials_def Let_def w'_def tu_def tv_def tu1_def tv1_def a_def b_def)
  have u: "MatTransform w' 3 0 = tu" and d: "Material_NumFramesDirty w' = 3"
    by (simp_all add: w'_def gNumFrameResources_def)
  have x0: "(0 :: real) \<le> float_0_1 * 25" by (simp add: float_0_1_value)
  have a: "2.4999 \<le> a" "a \<le> 2.5001"
    using fl_bounds [OF x0, of \<delta>] by (simp_all add: a_def float_0_1_value float_eps_def)
  have a0: "0 \<le> 0 + a" using a by simp
  have t1: "2.4998 \<le> tu1" "tu1 \<le> 2.5002"
    using fl_bounds [OF a0, of \<delta>] a by (simp_all add: tu1_def float_eps_def)
  have t0: "0 \<le> tu1 - 1" using t1 by simp
  have tu: "tu = fl \<delta> (tu1 - 1)" using t1 by (simp add: tu_def)
  have t: "1.49 < tu" "tu < 1.51"
    using fl_bounds [OF t0, of \<delta>] t1 unfolding tu by (simp_all add: float_eps_def)
  show "\<exists>mats' w'.
      AnimateMaterials \<delta> 25 [''water'' \<mapsto> ?w] = Some mats'
    \<and> mats' ''water'' = Some w'
    \<and> Material_NumFramesDirty w' = 3
    \<and> 1.49 < MatTransform w' 3 0 \<and> MatTransform w' 3 0 < 1.51
    \<and> \<not> MatTransform w' 3 0 < 1"
  proof (intro exI [of _ "[''water'' \<mapsto> ?w](''water'' \<mapsto> w')"] exI [of _ w'] conjI)
    show "AnimateMaterials \<delta> 25 [''water'' \<mapsto> ?w] = Some ([''water'' \<mapsto> ?w](''water'' \<mapsto> w'))"
      by (rule A)
    show "([''water'' \<mapsto> ?w](''water'' \<mapsto> w')) ''water'' = Some w'" by simp
    show "Material_NumFramesDirty w' = 3" by (rule d)
    show "1.49 < MatTransform w' 3 0" "MatTransform w' 3 0 < 1.51" "\<not> MatTransform w' 3 0 < 1"
      using t unfolding u by simp_all
  qed
qed

section \<open>Properties of the periodic disturbance\<close>

lemma Rand_range: "a \<le> b \<Longrightarrow> a \<le> Rand a b raw \<and> Rand a b raw \<le> b"
proof -
  assume ab: "a \<le> b"
  then have pos: "0 < (b - a) + 1" by simp
  have "0 \<le> int raw mod ((b - a) + 1)" using pos by (rule pos_mod_sign)
  moreover have "int raw mod ((b - a) + 1) < (b - a) + 1" using pos by (rule pos_mod_bound)
  ultimately show ?thesis by (simp add: Rand_def)
qed

lemma RandF_range:
  assumes "a \<le> b" "0 \<le> u" "u \<le> 1"
  shows "a \<le> RandF a b u \<and> RandF a b u \<le> b"
proof -
  have "0 \<le> u * (b - a)" using assms by simp
  moreover have "u * (b - a) \<le> 1 * (b - a)"
    using assms by (intro mult_right_mono) simp_all
  ultimately show ?thesis by (simp add: RandF_def)
qed

lemma run_waves_nth:
  assumes "9 \<le> RowCount w" "9 \<le> ColumnCount w"
    and "\<forall>(T, raw_i, raw_j, u) \<in> set frames. 0 \<le> u \<and> u \<le> 1"
    and "k < length (run_waves w frames t_base)"
  shows "case run_waves w frames t_base ! k of (T, i, j, r) \<Rightarrow>
           t_base + 0.25 * (real k + 1) \<le> T
         \<and> 4 \<le> i \<and> i \<le> RowCount w - 5 \<and> 4 \<le> j \<and> j \<le> ColumnCount w - 5
         \<and> 0.2 \<le> r \<and> r \<le> 0.5"
  using assms(3,4)
proof (induction frames arbitrary: t_base k)
  case Nil
  then show ?case by simp
next
  case (Cons fr frames)
  obtain T raw_i raw_j u where fr: "fr = (T, raw_i, raw_j, u)" by (cases fr)
  have u: "0 \<le> u \<and> u \<le> 1" using Cons.prems(1) fr by simp
  have rest: "\<forall>(T, raw_i, raw_j, u) \<in> set frames. 0 \<le> u \<and> u \<le> 1"
    using Cons.prems(1) by simp
  show ?case
  proof (cases "T - t_base \<ge> 0.25")
    case False
    then have eq: "run_waves w (fr # frames) t_base = run_waves w frames t_base"
      by (simp add: fr UpdateWaves_disturb_def)
    show ?thesis
      unfolding eq using Cons.IH [OF rest] Cons.prems(2) eq by simp
  next
    case True
    let ?d = "(Rand 4 (RowCount w - 5) raw_i, Rand 4 (ColumnCount w - 5) raw_j, RandF 0.2 0.5 u)"
    have eq: "run_waves w (fr # frames) t_base = (T, ?d) # run_waves w frames (t_base + 0.25)"
      using True by (simp add: fr UpdateWaves_disturb_def Let_def)
    show ?thesis
    proof (cases k)
      case 0
      have "4 \<le> Rand 4 (RowCount w - 5) raw_i \<and> Rand 4 (RowCount w - 5) raw_i \<le> RowCount w - 5"
        using assms(1) by (intro Rand_range) simp
      moreover have "4 \<le> Rand 4 (ColumnCount w - 5) raw_j \<and> Rand 4 (ColumnCount w - 5) raw_j \<le> ColumnCount w - 5"
        using assms(2) by (intro Rand_range) simp
      moreover have "0.2 \<le> RandF 0.2 0.5 u \<and> RandF 0.2 0.5 u \<le> 0.5"
        using u by (intro RandF_range) simp_all
      ultimately show ?thesis
        unfolding eq using 0 True by simp
    next
      case (Suc k')
      then have k': "k' < length (run_waves w frames (t_base + 0.25))"
        using Cons.prems(2) eq by simp
      have "case run_waves w frames (t_base + 0.25) ! k' of (T, i, j, r) \<Rightarrow>
           (t_base + 0.25) + 0.25 * (real k' + 1) \<le> T
         \<and> 4 \<le> i \<and> i \<le> RowCount w - 5 \<and> 4 \<le> j \<and> j \<le> ColumnCount w - 5
         \<and> 0.2 \<le> r \<and> r \<le> 0.5"
        by (rule Cons.IH [OF rest k'])
      then show ?thesis
        unfolding eq using Suc by (auto simp: field_simps split: prod.splits)
    qed
  qed
qed


text \<open>
  Claim C5. Run any sequence of frames on a grid of at least 9 rows and 9 columns (the
  application's grid has 128 of each), the generator's unit draws lying in \<open>[0, 1]\<close>.
  The disturbance number \<open>k\<close> (counted from 0) is issued in a frame whose total time has
  reached the quarter-second boundary \<open>0.25 (k + 1)\<close>, whatever the number of frames
  before it; its cell has \<open>i\<close> between 4 and \<^verbatim>\<open>RowCount - 5\<close> and \<open>j\<close> between 4 and
  \<^verbatim>\<open>ColumnCount - 5\<close>, hence at least 2 cells from every edge; and its magnitude lies
  between \<open>0.2\<close> and \<open>0.5\<close>.
\<close>

theorem disturbances_on_quarter_seconds:
  assumes "9 \<le> RowCount w" "9 \<le> ColumnCount w"
    and "\<forall>(T, raw_i, raw_j, u) \<in> set frames. 0 \<le> u \<and> u \<le> 1"
    and "k < length (run_waves w frames 0)"
  shows "case run_waves w frames 0 ! k of (T, i, j, r) \<Rightarrow>
           0.25 * (real k + 1) \<le> T
         \<and> 4 \<le> i \<and> i \<le> RowCount w - 5 \<and> 4 \<le> j \<and> j \<le> ColumnCount w - 5
         \<and> 2 \<le> i \<and> i \<le> RowCount w - 3 \<and> 2 \<le> j \<and> j \<le> ColumnCount w - 3
         \<and> 0.2 \<le> r \<and> r \<le> 0.5"
  using run_waves_nth [OF assms, of ] by (auto split: prod.splits)

theorem disturbances_on_quarter_seconds_witness:
  "(9 :: int) \<le> RowCount \<lparr>RowCount = 128, ColumnCount = 128, VertexCount = 16384, TriangleCount = 32258\<rparr>
   \<and> (9 :: int) \<le> ColumnCount \<lparr>RowCount = 128, ColumnCount = 128, VertexCount = 16384, TriangleCount = 32258\<rparr>
   \<and> run_waves \<lparr>RowCount = 128, ColumnCount = 128, VertexCount = 16384, TriangleCount = 32258\<rparr>
         [(0.1, 7, 300, 0.5), (0.3, 1000, 12345, 1)] 0 = [(0.3, 44, 109, 0.5)]
   \<and> (case run_waves \<lparr>RowCount = 128, ColumnCount = 128, VertexCount = 16384, TriangleCount = 32258\<rparr>
         [(0.1, 7, 300, 0.5), (0.3, 1000, 12345, 1)] 0 ! 0 of (T, i, j, r) \<Rightarrow>
           0.25 * (real 0 + 1) \<le> T
         \<and> 4 \<le> i \<and> i \<le> 123 \<and> 4 \<le> j \<and> j \<le> 123 \<and> 0.2 \<le> r \<and> r \<le> 0.5)"
proof -
  let ?w = "\<lparr>RowCount = 128, ColumnCount = 128, VertexCount = 16384, TriangleCount = 32258\<rparr>"
  let ?frames = "[(0.1, 7, 300, 0.5), (0.3, 1000, 12345, 1 :: real)] :: (real \<times> nat \<times> nat \<times> real) list"
  have v: "run_waves ?w ?frames 0 = [(0.3, 44, 109, 0.5)]"
    by (simp add: UpdateWaves_disturb_def Rand_def RandF_def Let_def)
  have h: "9 \<le> RowCount ?w" "9 \<le> ColumnCount ?w"
    "\<forall>(T, raw_i, raw_j, u) \<in> set ?frames. 0 \<le> u \<and> u \<le> 1"
    by simp_all
  have len: "0 < length (run_waves ?w ?frames 0)"
    unfolding v by simp
  have "case run_waves ?w ?frames 0 ! 0 of (T, i, j, r) \<Rightarrow>
           0.25 * (real 0 + 1) \<le> T
         \<and> 4 \<le> i \<and> i \<le> RowCount ?w - 5 \<and> 4 \<le> j \<and> j \<le> ColumnCount ?w - 5
         \<and> 2 \<le> i \<and> i \<le> RowCount ?w - 3 \<and> 2 \<le> j \<and> j \<le> ColumnCount ?w - 3
         \<and> 0.2 \<le> r \<and> r \<le> 0.5"
    by (rule disturbances_on_quarter_seconds [OF h len])
  then have c: "case run_waves ?w ?frames 0 ! 0 of (T, i, j, r) \<Rightarrow>
           0.25 * (real 0 + 1) \<le> T
         \<and> 4 \<le> i \<and> i \<le> 123 \<and> 4 \<le> j \<and> j \<le> 123 \<and> 0.2 \<le> r \<and> r \<le> 0.5"
    unfolding v by simp
  show ?thesis
    using h(1,2) v c by (intro conjI)
qed


section \<open>Properties of the wave field\<close>

lemma update_loop_idle:
  "accumulated fld < time_step fld \<Longrightarrow> update_loop step fld n = Some (fld, n)"
  by (subst update_loop.simps) simp

lemma update_loop_steps:
  assumes "0 < time_step fld"
    and "real k * time_step fld \<le> accumulated fld"
    and "accumulated fld < (real k + 1) * time_step fld"
  shows "update_loop step fld n =
           Some (fld\<lparr>grid := (step ^^ k) (grid fld),
                      accumulated := accumulated fld - real k * time_step fld\<rparr>, n + k)"
  using assms
proof (induction k arbitrary: fld n)
  case 0
  then show ?case by (simp add: update_loop_idle)
next
  case (Suc k)
  define fld1 where
    "fld1 = fld\<lparr>grid := step (grid fld), accumulated := accumulated fld - time_step fld\<rparr>"
  have dt: "time_step fld1 = time_step fld" by (simp add: fld1_def)
  have ge: "accumulated fld \<ge> time_step fld"
  proof -
    have "time_step fld \<le> real (Suc k) * time_step fld"
      using Suc.prems(1) by simp
    then show ?thesis using Suc.prems(2) by simp
  qed
  have lo: "real k * time_step fld1 \<le> accumulated fld1"
    using Suc.prems(2) by (simp add: fld1_def algebra_simps)
  have hi: "accumulated fld1 < (real k + 1) * time_step fld1"
    using Suc.prems(3) by (simp add: fld1_def algebra_simps)
  have pos: "0 < time_step fld1" using Suc.prems(1) dt by simp
  have "update_loop step fld n = update_loop step fld1 (Suc n)"
    using ge by (subst update_loop.simps) (simp add: fld1_def)
  also have "\<dots> = Some (fld1\<lparr>grid := (step ^^ k) (grid fld1),
                      accumulated := accumulated fld1 - real k * time_step fld1\<rparr>, Suc n + k)"
    by (rule Suc.IH [OF pos lo hi])
  also have "fld1\<lparr>grid := (step ^^ k) (grid fld1),
                      accumulated := accumulated fld1 - real k * time_step fld1\<rparr>
           = fld\<lparr>grid := (step ^^ Suc k) (grid fld),
                      accumulated := accumulated fld - real (Suc k) * time_step fld\<rparr>"
    by (simp add: fld1_def funpow_swap1 algebra_simps)
  finally show ?case by simp
qed

lemma steps_exist:
  assumes "0 < (dt :: real)" "dt \<le> a"
  shows "\<exists>k. real k * dt \<le> a \<and> a < (real k + 1) * dt"
proof -
  define c where "c = \<lfloor>a / dt\<rfloor>"
  have q: "1 \<le> a / dt" using assms by simp
  have c1: "real_of_int c \<le> a / dt" and c2: "a / dt < real_of_int c + 1"
    unfolding c_def by linarith+
  have cpos: "1 \<le> c" using q unfolding c_def by linarith
  define k where "k = nat c"
  have rk: "real k = real_of_int c" using cpos by (simp add: k_def)
  have "real k * dt \<le> a"
    using c1 assms(1) unfolding rk by (simp add: field_simps)
  moreover have "a < (real k + 1) * dt"
    using c2 assms(1) unfolding rk by (simp add: field_simps)
  ultimately show ?thesis by blast
qed

lemma update_loop_total:
  assumes "0 < time_step fld"
  shows "\<exists>fld' m. update_loop step fld n = Some (fld', m)
           \<and> accumulated fld' < time_step fld' \<and> time_step fld' = time_step fld"
proof (cases "accumulated fld < time_step fld")
  case True
  then show ?thesis by (simp add: update_loop_idle)
next
  case False
  then obtain k where k: "real k * time_step fld \<le> accumulated fld"
      "accumulated fld < (real k + 1) * time_step fld"
    using steps_exist [OF assms, of "accumulated fld"] by auto
  show ?thesis
    using update_loop_steps [OF assms k, of step n] k(2) by (simp add: algebra_simps)
qed

text \<open>
  Claim C2, as amended. Let the time step be positive and let \<open>a\<close> be the time already
  accumulated. If \<open>a + t\<close> is below one time step, \<open>update(t)\<close> performs no step and
  leaves the grid as it is; if \<open>a + t\<close> is at least \<open>n\<close> time steps and below \<open>n + 1\<close>, it
  performs exactly \<open>n\<close> steps and keeps the remainder. On a field with nothing
  accumulated, as after its construction, this is the claim as it was stated: no step
  for \<open>t\<close> below one time step, exactly \<open>n\<close> steps for \<open>t\<close> equal to \<open>n\<close> time steps. On a
  field whose accumulated time is below one time step, \<open>update(0)\<close> changes nothing at
  all; and every call of \<open>update\<close> returns and leaves such a field, so repeated calls of
  \<open>update(0)\<close> never change the grid.
\<close>

theorem update_fixed_timestep:
  assumes "0 < time_step fld"
  shows "(accumulated fld + t < time_step fld \<longrightarrow>
            update step t fld = Some (fld\<lparr>accumulated := accumulated fld + t\<rparr>, 0))
       \<and> (real n * time_step fld \<le> accumulated fld + t
            \<and> accumulated fld + t < (real n + 1) * time_step fld \<longrightarrow>
            update step t fld =
              Some (fld\<lparr>grid := (step ^^ n) (grid fld),
                         accumulated := accumulated fld + t - real n * time_step fld\<rparr>, n))
       \<and> (accumulated fld = 0 \<and> t < time_step fld \<longrightarrow>
            update step t fld = Some (fld\<lparr>accumulated := t\<rparr>, 0))
       \<and> (accumulated fld = 0 \<and> t = real n * time_step fld \<longrightarrow>
            update step t fld =
              Some (fld\<lparr>grid := (step ^^ n) (grid fld), accumulated := 0\<rparr>, n))
       \<and> (accumulated fld < time_step fld \<longrightarrow> update step 0 fld = Some (fld, 0))
       \<and> (\<exists>fld' m. update step t fld = Some (fld', m)
              \<and> accumulated fld' < time_step fld' \<and> time_step fld' = time_step fld)"
proof -
  define fld1 where "fld1 = fld\<lparr>accumulated := accumulated fld + t\<rparr>"
  have U: "update step t fld = update_loop step fld1 0"
    by (simp add: update_def fld1_def)
  have pos: "0 < time_step fld1" using assms by (simp add: fld1_def)
  have A: "update step t fld = Some (fld\<lparr>accumulated := accumulated fld + t\<rparr>, 0)"
    if "accumulated fld + t < time_step fld"
    unfolding U using that by (simp add: update_loop_idle fld1_def)
  have B: "update step t fld =
              Some (fld\<lparr>grid := (step ^^ n) (grid fld),
                         accumulated := accumulated fld + t - real n * time_step fld\<rparr>, n)"
    if "real n * time_step fld \<le> accumulated fld + t"
      "accumulated fld + t < (real n + 1) * time_step fld"
  proof -
    have lo: "real n * time_step fld1 \<le> accumulated fld1"
      and hi: "accumulated fld1 < (real n + 1) * time_step fld1"
      using that by (simp_all add: fld1_def)
    show ?thesis
      unfolding U using update_loop_steps [OF pos lo hi, of step 0] by (simp add: fld1_def)
  qed
  have A0: "update step t fld = Some (fld\<lparr>accumulated := t\<rparr>, 0)"
    if "accumulated fld = 0" "t < time_step fld"
    using A that by simp
  have B0: "update step t fld =
              Some (fld\<lparr>grid := (step ^^ n) (grid fld), accumulated := 0\<rparr>, n)"
    if "accumulated fld = 0" "t = real n * time_step fld"
  proof -
    have "real n * time_step fld \<le> accumulated fld + t"
      "accumulated fld + t < (real n + 1) * time_step fld"
      using that assms by (simp_all add: algebra_simps)
    then show ?thesis using B that by simp
  qed
  have C: "update step 0 fld = Some (fld, 0)" if "accumulated fld < time_step fld"
    using that by (simp add: update_def update_loop_idle)
  have D: "\<exists>fld' m. update step t fld = Some (fld', m)
              \<and> accumulated fld' < time_step fld' \<and> time_step fld' = time_step fld"
    unfolding U using update_loop_total [OF pos, of step 0] by (simp add: fld1_def)
  show ?thesis using A B A0 B0 C D by blast
qed

theorem update_fixed_timestep_witness:
  "0 < time_step \<lparr>grid = \<lparr>rows = 128, cols = 128, height = (\<lambda>r c. 0), previous_height = (\<lambda>r c. 0)\<rparr>,
                    spatial_step = 1, time_step = 0.03, accumulated = 0, damping = 0.2,
                    wave_speed = 4\<rparr>
   \<and> update (\<lambda>g. g\<lparr>height := (\<lambda>r c. height g r c + 1)\<rparr>) 0.06
        \<lparr>grid = \<lparr>rows = 128, cols = 128, height = (\<lambda>r c. 0), previous_height = (\<lambda>r c. 0)\<rparr>,
          spatial_step = 1, time_step = 0.03, accumulated = 0, damping = 0.2, wave_speed = 4\<rparr>
     = Some (\<lparr>grid = \<lparr>rows = 128, cols = 128, height = (\<lambda>r c. 2), previous_height = (\<lambda>r c. 0)\<rparr>,
          spatial_step = 1, time_step = 0.03, accumulated = 0, damping = 0.2, wave_speed = 4\<rparr>, 2)
   \<and> update (\<lambda>g. g\<lparr>height := (\<lambda>r c. height g r c + 1)\<rparr>) 0.02
        \<lparr>grid = \<lparr>rows = 128, cols = 128, height = (\<lambda>r c. 0), previous_height = (\<lambda>r c. 0)\<rparr>,
          spatial_step = 1, time_step = 0.03, accumulated = 0, damping = 0.2, wave_speed = 4\<rparr>
     = Some (\<lparr>grid = \<lparr>rows = 128, cols = 128, height = (\<lambda>r c. 0), previous_height = (\<lambda>r c. 0)\<rparr>,
          spatial_step = 1, time_step = 0.03, accumulated = 0.02, damping = 0.2, wave_speed = 4\<rparr>, 0)"
proof -
  let ?g = "\<lparr>rows = 128, cols = 128, height = (\<lambda>r c. 0), previous_height = (\<lambda>r c. 0)\<rparr>"
  let ?f = "\<lparr>grid = ?g, spatial_step = 1, time_step = 0.03, accumulated = 0, damping = 0.2,
             wave_speed = 4\<rparr>"
  let ?s = "\<lambda>g. g\<lparr>height := (\<lambda>r c. height g r c + 1)\<rparr>"
  have p: "0 < time_step ?f" by simp
  have two: "(?s ^^ 2) ?g = ?g\<lparr>height := (\<lambda>r c. 2)\<rparr>"
    by (simp add: numeral_2_eq_2)
  have a: "update ?s 0.06 ?f = Some (?f\<lparr>grid := (?s ^^ 2) (grid ?f), accumulated := 0\<rparr>, 2)"
    using update_fixed_timestep [OF p, where t = "0.06" and step = ?s and n = 2] by simp
  have b: "update ?s 0.02 ?f = Some (?f\<lparr>accumulated := 0.02\<rparr>, 0)"
    using update_fixed_timestep [OF p, where t = "0.02" and step = ?s and n = 0] by simp
  show ?thesis
    using a b two by simp
qed

text \<open>
  Claim C2 as stated has no step for any elapsed time below one time step. With the
  application's time step \<open>0.03\<close> and two frames of \<open>0.02\<close> seconds on a fresh field, the
  first call performs no step, and the second performs one, since the first has left its
  time accumulated.
\<close>

theorem update_step_count_counterexample:
  "update id 0.02
     \<lparr>grid = \<lparr>rows = 128, cols = 128, height = (\<lambda>r c. 0), previous_height = (\<lambda>r c. 0)\<rparr>,
       spatial_step = 1, time_step = 0.03, accumulated = 0, damping = 0.2, wave_speed = 4\<rparr>
   = Some (\<lparr>grid = \<lparr>rows = 128, cols = 128, height = (\<lambda>r c. 0), previous_height = (\<lambda>r c. 0)\<rparr>,
       spatial_step = 1, time_step = 0.03, accumulated = 0.02, damping = 0.2, wave_speed = 4\<rparr>, 0)
   \<and> (0.02 :: real) < 0.03
   \<and> map_option snd (update id 0.02
     \<lparr>grid = \<lparr>rows = 128, cols = 128, height = (\<lambda>r c. 0), previous_height = (\<lambda>r c. 0)\<rparr>,
       spatial_step = 1, time_step = 0.03, accumulated = 0.02, damping = 0.2, wave_speed = 4\<rparr>)
   = Some 1"
proof -
  let ?g = "\<lparr>rows = 128, cols = 128, height = (\<lambda>r c. 0), previous_height = (\<lambda>r c. 0)\<rparr>"
  let ?f = "\<lambda>a. \<lparr>grid = ?g, spatial_step = 1, time_step = 0.03, accumulated = a, damping = 0.2,
             wave_speed = 4\<rparr>"
  have b: "update id 0.02 (?f 0) = Some (?f 0.02, 0)"
    by (simp add: update_def update_loop_idle)
  have "update_loop id (?f 0.04) 0 =
          Some ((?f 0.04)\<lparr>grid := (id ^^ 1) (grid (?f 0.04)),
                  accumulated := accumulated (?f 0.04) - real 1 * time_step (?f 0.04)\<rparr>, 0 + 1)"
    by (rule update_loop_steps) simp_all
  then have c: "update id 0.02 (?f 0.02) = Some (?f 0.01, 1)"
    by (simp add: update_def)
  show ?thesis using b c by simp
qed

text \<open>
  Claim C4. For every cell at least 2 cells from every edge, every positive magnitude
  (the application passes magnitudes between \<open>0.2\<close> and \<open>0.5\<close>) and every fraction strictly
  between 0 and 1, \<open>disturb\<close> succeeds, raises the height of the target cell by the
  magnitude (so strictly), raises each of the four direct neighbours by the fraction of
  the magnitude, which is positive and smaller, and leaves all other heights as they are.
\<close>

theorem disturb_raises_target:
  assumes "2 \<le> row" "row \<le> rows (grid fld) - 3" "2 \<le> col" "col \<le> cols (grid fld) - 3"
    and "0 < magnitude" "0 < fraction" "fraction < 1"
  shows "\<exists>fld'.
           disturb fraction row col magnitude fld = Inr fld'
         \<and> height (grid fld') row col = height (grid fld) row col + magnitude
         \<and> height (grid fld) row col < height (grid fld') row col
         \<and> height (grid fld') row (col + 1) = height (grid fld) row (col + 1) + fraction * magnitude
         \<and> height (grid fld') row (col - 1) = height (grid fld) row (col - 1) + fraction * magnitude
         \<and> height (grid fld') (row + 1) col = height (grid fld) (row + 1) col + fraction * magnitude
         \<and> height (grid fld') (row - 1) col = height (grid fld) (row - 1) col + fraction * magnitude
         \<and> 0 < fraction * magnitude \<and> fraction * magnitude < magnitude
         \<and> (\<forall>r c. 1 < \<bar>r - row\<bar> + \<bar>c - col\<bar> \<longrightarrow>
                height (grid fld') r c = height (grid fld) r c)"
proof -
  have less: "fraction * magnitude < 1 * magnitude"
    using assms(5,7) by (intro mult_strict_right_mono) simp_all
  have pos: "0 < fraction * magnitude"
    using assms(5,6) by simp
  show ?thesis
    using assms(1-5) less pos by (auto simp: disturb_def Let_def)
qed

theorem disturb_raises_target_witness:
  "(2 :: int) \<le> 64
   \<and> 64 \<le> rows (grid \<lparr>grid = \<lparr>rows = 128, cols = 128, height = (\<lambda>r c. 0),
                                   previous_height = (\<lambda>r c. 0)\<rparr>,
                         spatial_step = 1, time_step = 0.03, accumulated = 0, damping = 0.2,
                         wave_speed = 4\<rparr>) - 3
   \<and> (0 :: real) < 0.4 \<and> (0 :: real) < 0.5 \<and> (0.5 :: real) < 1
   \<and> (\<exists>fld'. disturb 0.5 64 64 0.4
                 \<lparr>grid = \<lparr>rows = 128, cols = 128, height = (\<lambda>r c. 0),
                           previous_height = (\<lambda>r c. 0)\<rparr>,
                   spatial_step = 1, time_step = 0.03, accumulated = 0, damping = 0.2,
                   wave_speed = 4\<rparr> = Inr fld'
          \<and> height (grid fld') 64 64 = 0.4
          \<and> height (grid fld') 64 65 = 0.2
          \<and> height (grid fld') 66 64 = 0)"
proof -
  let ?f = "\<lparr>grid = \<lparr>rows = 128, cols = 128, height = (\<lambda>r c. 0 :: real),
                           previous_height = (\<lambda>r c. 0)\<rparr>,
                   spatial_step = 1, time_step = 0.03, accumulated = 0, damping = 0.2,
                   wave_speed = 4\<rparr>"
  have h: "(2 :: int) \<le> 64" "64 \<le> rows (grid ?f) - 3" "(2 :: int) \<le> 64" "64 \<le> cols (grid ?f) - 3"
    "(0 :: real) < 0.4" "(0 :: real) < 0.5" "(0.5 :: real) < 1"
    by simp_all
  obtain fld' where d: "disturb 0.5 64 64 0.4 ?f = Inr fld'"
    and c: "height (grid fld') 64 64 = height (grid ?f) 64 64 + 0.4"
    and n: "height (grid fld') 64 (64 + 1) = height (grid ?f) 64 (64 + 1) + 0.5 * 0.4"
    and o: "\<forall>r c. 1 < \<bar>r - 64\<bar> + \<bar>c - 64\<bar> \<longrightarrow> height (grid fld') r c = height (grid ?f) r c"
    using disturb_raises_target [where fld = ?f and fraction = "0.5" and magnitude = "0.4"
        and row = 64 and col = 64, OF h]
    by (elim exE conjE)
  have c': "height (grid fld') 64 64 = 0.4" using c by simp
  have n': "height (grid fld') 64 65 = 0.2" using n by simp
  have o': "height (grid fld') 66 64 = 0" using o [rule_format, of 66 64] by simp
  show ?thesis
    using h(2) d c' n' o' by (intro conjI exI [of _ fld']) simp_all
qed

end
